theory Spec2Isabelle
  imports Main "HOL-Library.AList" "HOL-Library.Sublist"
begin

section \<open>Values shared by both packages\<close>

text \<open>
  Go's \<open>error\<close> values that the two packages can meet. \<open>EOF\<close> is \<open>io.EOF\<close>;
  \<open>ErrExist\<close> is the only error for which \<open>os.IsExist\<close> answers true;
  \<open>ErrOther\<close> stands for every other failure of the file system (permission
  denied, disk full, ...). A Go \<open>error\<close> that may be \<open>nil\<close> is an \<open>error option\<close>.
\<close>

datatype error = EOF | ErrNotExist | ErrExist | ENOTDIR | EISDIR | ErrOther nat

text \<open>
  A \<open>[]byte\<close>: \<open>None\<close> is the nil slice, \<open>Some bs\<close> a slice holding the bytes
  \<open>bs\<close> (Isabelle's \<open>char\<close> is a byte).
\<close>

type_synonym bytes = "char list option"

definition bytes_data :: "bytes \<Rightarrow> char list" where
  "bytes_data b = (case b of None \<Rightarrow> [] | Some bs \<Rightarrow> bs)"

text \<open>An \<open>fs.DirEntry\<close>, as far as the scanners look at it.\<close>

record DirEntry =
  Name :: string
  IsDir :: bool

text \<open>
  The \<open>fs.FS\<close> handed to \<open>ReadFS\<close>: what \<open>fs.ReadDir(fsys, dir)\<close> and
  \<open>fs.ReadFile(fsys, p)\<close> return for it. Both are Go calls with two results, so
  entries or data may come together with an error.
\<close>

record fsys =
  fs_ReadDir :: "string \<Rightarrow> DirEntry list \<times> error option"
  fs_ReadFile :: "string \<Rightarrow> bytes \<times> error option"

section \<open>Package path\<close>

text \<open>
  \<open>path.Join\<close>, \<open>path.Clean\<close> and \<open>path.Dir\<close> of Go's standard library, from
  their documented behaviour: a path is cut at every slash, empty and \<open>.\<close>
  elements are dropped, a \<open>..\<close> removes the element before it (at the start of a
  rooted path it is dropped, at the start of a relative path it is kept), and the
  empty result is \<open>.\<close>.
\<close>

fun split_slash :: "string \<Rightarrow> string list" where
  "split_slash [] = [[]]"
| "split_slash (c # cs) =
     (if c = CHR ''/'' then [] # split_slash cs
      else (case split_slash cs of [] \<Rightarrow> [[c]] | w # ws \<Rightarrow> (c # w) # ws))"

fun join_slash :: "string list \<Rightarrow> string" where
  "join_slash [] = []"
| "join_slash [x] = x"
| "join_slash (x # y # ys) = x @ CHR ''/'' # join_slash (y # ys)"

definition clean_step :: "bool \<Rightarrow> string list \<Rightarrow> string \<Rightarrow> string list" where
  "clean_step rooted out s =
     (if s = [] \<or> s = ''.'' then out
      else if s = ''..'' then
        (if out \<noteq> [] \<and> last out \<noteq> ''..'' then butlast out
         else if rooted then out
         else out @ [''..''])
      else out @ [s])"

definition clean_elems :: "bool \<Rightarrow> string \<Rightarrow> string list" where
  "clean_elems rooted p = foldl (clean_step rooted) [] (split_slash p)"

definition path_Clean :: "string \<Rightarrow> string" where
  "path_Clean p =
     (if p = [] then ''.''
      else if hd p = CHR ''/'' then CHR ''/'' # join_slash (clean_elems True p)
      else if clean_elems False p = [] then ''.''
      else join_slash (clean_elems False p))"

definition path_Join :: "string \<Rightarrow> string \<Rightarrow> string" where
  "path_Join a b =
     (if a = [] \<and> b = [] then []
      else if a = [] then path_Clean b
      else path_Clean (a @ CHR ''/'' # b))"

definition dir_part :: "string \<Rightarrow> string" where
  "dir_part p = rev (dropWhile (\<lambda>c. c \<noteq> CHR ''/'') (rev p))"

definition path_Dir :: "string \<Rightarrow> string" where
  "path_Dir p = path_Clean (dir_part p)"

section \<open>Package dirsnap: scanning\<close>

text \<open>
  \<open>type Dirs map[string]Dirs\<close>: a value is the nil map (\<open>DNil\<close>, a file) or a
  map (\<open>Dirs\<close>). The map is an association list; its order is the order in
  which \<open>range\<close> visits it, and \<open>t[k] = v\<close> is \<open>AList.update k v t\<close>.
\<close>

datatype dirs = DNil | Dirs "(string \<times> dirs) list"

text \<open>
  \<open>dirsnap.ReadFS\<close>. The depth \<open>n\<close> is only compared with 0 and decremented,
  so it is an \<open>int\<close>. The recursion follows the file system handed in, which may
  be arbitrarily deep: the first argument is fuel, one unit per nested call, and
  \<open>None\<close> means the fuel ran out.
\<close>

fun ReadFS :: "nat \<Rightarrow> fsys \<Rightarrow> string \<Rightarrow> int \<Rightarrow> (dirs \<times> error option) option"
and ReadFS_loop :: "nat \<Rightarrow> fsys \<Rightarrow> string \<Rightarrow> int \<Rightarrow> DirEntry list \<Rightarrow> (string \<times> dirs) list
      \<Rightarrow> (dirs \<times> error option) option" where
  "ReadFS 0 fsys dir n = None"
| "ReadFS (Suc k) fsys dir n =
     (case fs_ReadDir fsys dir of (entries, err) \<Rightarrow>
        if err \<noteq> None \<and> err \<noteq> Some EOF then Some (DNil, err)
        else ReadFS_loop k fsys dir n entries [])"
| "ReadFS_loop k fsys dir n [] t = Some (Dirs t, None)"
| "ReadFS_loop k fsys dir n (e # es) t =
     (let en = Name e in
      if \<not> IsDir e then ReadFS_loop k fsys dir n es (AList.update en DNil t)
      else if n = 0 then ReadFS_loop k fsys dir n es (AList.update en (Dirs []) t)
      else (case ReadFS k fsys (path_Join dir en) (n - 1) of
              None \<Rightarrow> None
            | Some (sub, err) \<Rightarrow>
                if err \<noteq> None then Some (Dirs (AList.update en sub t), err)
                else ReadFS_loop k fsys dir n es (AList.update en sub t)))"

section \<open>Package filesnap: scanning\<close>

text \<open>
  \<open>type Files map[string][]byte\<close>, again as an association list in iteration
  order. \<open>readFS\<close> writes into the receiver \<open>f\<close>; the model returns it.
\<close>

type_synonym files = "(string \<times> bytes) list"

fun readFS :: "nat \<Rightarrow> fsys \<Rightarrow> string \<Rightarrow> string \<Rightarrow> int \<Rightarrow> files \<Rightarrow> (files \<times> error option) option"
and readFS_loop :: "nat \<Rightarrow> fsys \<Rightarrow> string \<Rightarrow> string \<Rightarrow> int \<Rightarrow> DirEntry list \<Rightarrow> files
      \<Rightarrow> (files \<times> error option) option" where
  "readFS 0 fsys rootDir subDir n f = None"
| "readFS (Suc k) fsys rootDir subDir n f =
     (let dir = path_Join rootDir subDir in
      case fs_ReadDir fsys dir of (entries, err) \<Rightarrow>
        if err \<noteq> None \<and> err \<noteq> Some EOF then Some (f, err)
        else readFS_loop k fsys rootDir subDir n entries f)"
| "readFS_loop k fsys rootDir subDir n [] f = Some (f, None)"
| "readFS_loop k fsys rootDir subDir n (e # es) f =
     (let dir = path_Join rootDir subDir;
          p = path_Join dir (Name e);
          sp = path_Join subDir (Name e) in
      if \<not> IsDir e then
        (case fs_ReadFile fsys p of (data, err) \<Rightarrow>
           if err \<noteq> None \<and> err \<noteq> Some EOF then Some (AList.update sp data f, err)
           else readFS_loop k fsys rootDir subDir n es (AList.update sp data f))
      else if n \<noteq> 0 then
        (case readFS k fsys rootDir sp (n - 1) f of
           None \<Rightarrow> None
         | Some (f', err) \<Rightarrow>
             if err \<noteq> None then Some (f', err)
             else readFS_loop k fsys rootDir subDir n es f')
      else readFS_loop k fsys rootDir subDir n es f)"

definition filesnap_ReadFS :: "nat \<Rightarrow> fsys \<Rightarrow> string \<Rightarrow> int \<Rightarrow> (files \<times> error option) option" where
  "filesnap_ReadFS k fsys dir n = readFS k fsys dir [] n []"

section \<open>The file system behind package osa\<close>

text \<open>
  The two packages reach the disk through \<open>github.com/echocrow/osa\<close> (imported as
  \<open>os\<close>) and \<open>io/fs\<close>, which are not part of this repository. They are modelled
  here by what such a file system does with plain files and directories: no
  links, no permissions (the packages create everything with owner access), the
  working directory is the root. A disk is the tree of its root directory; a
  directory keeps its entries in the order of their creation.
\<close>

datatype node = File "char list" | Dir "(string \<times> node) list"

fun is_Dir :: "node \<Rightarrow> bool" where
  "is_Dir (Dir es) = True"
| "is_Dir (File c) = False"

text \<open>
  The elements a path string names, from the root: the system resolves \<open>.\<close>,
  \<open>..\<close> and repeated slashes as \<open>path.Clean\<close> does for a rooted path.
\<close>

definition path_elems :: "string \<Rightarrow> string list" where
  "path_elems p = clean_elems True p"

text \<open>Following a list of names down from a node.\<close>

fun walk :: "node \<Rightarrow> string list \<Rightarrow> error + node" where
  "walk t [] = Inr t"
| "walk (File c) (s # ss) = Inl ENOTDIR"
| "walk (Dir es) (s # ss) =
     (case map_of es s of None \<Rightarrow> Inl ErrNotExist | Some t \<Rightarrow> walk t ss)"

text \<open>
  Putting the tree \<open>new\<close> at a list of names below a node. Directories missing
  on the way are created; a file on the way is left as it is.
\<close>

fun graft :: "node \<Rightarrow> string list \<Rightarrow> node \<Rightarrow> node" where
  "graft t [] new = new"
| "graft (File c) (s # ss) new = File c"
| "graft (Dir es) (s # ss) new =
     Dir (AList.update s
            (graft (case map_of es s of None \<Rightarrow> Dir [] | Some t \<Rightarrow> t) ss new) es)"

text \<open>The empty path names nothing.\<close>

definition os_lookup :: "node \<Rightarrow> string \<Rightarrow> error + node" where
  "os_lookup root p = (if p = [] then Inl ErrNotExist else walk root (path_elems p))"

text \<open>\<open>os.Stat\<close>: the \<open>FileInfo\<close> is reduced to what \<open>IsDir()\<close> answers.\<close>

datatype FileInfo = FileInfo (fi_IsDir: bool)

definition os_Stat :: "string \<Rightarrow> node \<Rightarrow> FileInfo option \<times> error option" where
  "os_Stat name root =
     (case os_lookup root name of
        Inl e \<Rightarrow> (None, Some e)
      | Inr t \<Rightarrow> (Some (FileInfo (is_Dir t)), None))"

definition os_IsExist :: "error option \<Rightarrow> bool" where
  "os_IsExist err = (err = Some ErrExist)"

text \<open>
  \<open>os.WriteFile(name, data, 0600)\<close>: creates the file or truncates it, then writes
  \<open>data\<close> (a nil slice holds no bytes). It fails on a directory, below a file
  and below a missing directory. The result is the error and the disk afterwards.
\<close>

definition os_WriteFile :: "string \<Rightarrow> bytes \<Rightarrow> node \<Rightarrow> error option \<times> node" where
  "os_WriteFile name data root =
     (case os_lookup root name of
        Inr (Dir es) \<Rightarrow> (Some EISDIR, root)
      | Inr (File c) \<Rightarrow> (None, graft root (path_elems name) (File (bytes_data data)))
      | Inl e \<Rightarrow>
          (if e = ErrNotExist \<and> name \<noteq> []
              \<and> (case walk root (butlast (path_elems name)) of Inr (Dir es) \<Rightarrow> True | _ \<Rightarrow> False)
           then (None, graft root (path_elems name) (File (bytes_data data)))
           else (Some e, root)))"

text \<open>
  \<open>os.Mkdir(name, 0700)\<close>: creates one directory; fails with \<open>ErrExist\<close> when the
  name is taken, by a file or by a directory.
\<close>

definition os_Mkdir :: "string \<Rightarrow> node \<Rightarrow> error option \<times> node" where
  "os_Mkdir name root =
     (case os_lookup root name of
        Inr t \<Rightarrow> (Some ErrExist, root)
      | Inl e \<Rightarrow>
          (if e = ErrNotExist \<and> name \<noteq> []
              \<and> (case walk root (butlast (path_elems name)) of Inr (Dir es) \<Rightarrow> True | _ \<Rightarrow> False)
           then (None, graft root (path_elems name) (Dir []))
           else (Some e, root)))"

text \<open>
  \<open>os.MkdirAll(path, 0700)\<close>: nothing to do on a directory; \<open>ENOTDIR\<close> on a file
  or below one; otherwise the missing directories are created.
\<close>

definition os_MkdirAll :: "string \<Rightarrow> node \<Rightarrow> error option \<times> node" where
  "os_MkdirAll name root =
     (case os_lookup root name of
        Inr (Dir es) \<Rightarrow> (None, root)
      | Inr (File c) \<Rightarrow> (Some ENOTDIR, root)
      | Inl e \<Rightarrow>
          (if e = ErrNotExist \<and> name \<noteq> [] then (None, graft root (path_elems name) (Dir []))
           else (Some e, root)))"

text \<open>
  The disk as an \<open>fs.FS\<close> (\<open>os.Current()\<close> in \<open>Read\<close>). A directory is listed in
  the order of its entries; the scanners store what they find in a map, so the
  order of a listing does not show in a snapshot. Reading an empty file gives
  an empty, non-nil slice.
\<close>

definition os_ReadDir :: "node \<Rightarrow> string \<Rightarrow> DirEntry list \<times> error option" where
  "os_ReadDir root name =
     (case os_lookup root name of
        Inl e \<Rightarrow> ([], Some e)
      | Inr (File c) \<Rightarrow> ([], Some ENOTDIR)
      | Inr (Dir es) \<Rightarrow> (map (\<lambda>(n, t). \<lparr>Name = n, IsDir = is_Dir t\<rparr>) es, None))"

definition os_ReadFile :: "node \<Rightarrow> string \<Rightarrow> bytes \<times> error option" where
  "os_ReadFile root name =
     (case os_lookup root name of
        Inl e \<Rightarrow> (None, Some e)
      | Inr (File c) \<Rightarrow> (Some c, None)
      | Inr (Dir es) \<Rightarrow> (None, Some EISDIR))"

definition os_Current :: "node \<Rightarrow> fsys" where
  "os_Current root = \<lparr>fs_ReadDir = os_ReadDir root, fs_ReadFile = os_ReadFile root\<rparr>"

section \<open>Package dirsnap: Read and Write\<close>

definition dirsnap_Read :: "nat \<Rightarrow> node \<Rightarrow> string \<Rightarrow> int \<Rightarrow> (dirs \<times> error option) option" where
  "dirsnap_Read k root dir n = ReadFS k (os_Current root) dir n"

definition writeEmptyFile :: "string \<Rightarrow> node \<Rightarrow> error option \<times> node" where
  "writeEmptyFile name root = os_WriteFile name (Some []) root"

definition isWriteErrOk :: "error option \<Rightarrow> string \<Rightarrow> bool \<Rightarrow> node \<Rightarrow> bool" where
  "isWriteErrOk err name wantDir root =
     (if \<not> os_IsExist err then err = None
      else (case os_Stat name root of (fi, err') \<Rightarrow>
              let gotDir = (case fi of None \<Rightarrow> False | Some i \<Rightarrow> fi_IsDir i)
              in err' = None \<and> gotDir = wantDir))"

text \<open>
  \<open>Dirs.Write\<close>. The loop visits the entries in the order of the association
  list; Go picks the order of a \<open>range\<close> over a map afresh each time, so a
  statement about \<open>Write\<close> is made for every order of the list.
\<close>

fun Dirs_Write :: "dirs \<Rightarrow> string \<Rightarrow> node \<Rightarrow> error option \<times> node"
and Dirs_Write_loop :: "(string \<times> dirs) list \<Rightarrow> string \<Rightarrow> node \<Rightarrow> error option \<times> node" where
  "Dirs_Write DNil dir root = (None, root)"
| "Dirs_Write (Dirs d) dir root = Dirs_Write_loop d dir root"
| "Dirs_Write_loop [] dir root = (None, root)"
| "Dirs_Write_loop ((n, st) # rest) dir root =
     (let name = path_Join dir n in
      if st = DNil then
        (case writeEmptyFile name root of (err, root1) \<Rightarrow>
           if \<not> isWriteErrOk err name False root1 then (err, root1)
           else Dirs_Write_loop rest dir root1)
      else
        (case os_Mkdir name root of (err, root1) \<Rightarrow>
           if \<not> isWriteErrOk err name True root1 then (err, root1)
           else (case Dirs_Write st name root1 of (err2, root2) \<Rightarrow>
                   if err2 \<noteq> None then (err2, root2)
                   else Dirs_Write_loop rest dir root2)))"

section \<open>Package filesnap: Read and Write\<close>

definition filesnap_Read :: "nat \<Rightarrow> node \<Rightarrow> string \<Rightarrow> int \<Rightarrow> (files \<times> error option) option" where
  "filesnap_Read k root dir n = filesnap_ReadFS k (os_Current root) dir n"

fun Files_Write :: "files \<Rightarrow> string \<Rightarrow> node \<Rightarrow> error option \<times> node" where
  "Files_Write [] dir root = (None, root)"
| "Files_Write ((n, data) # rest) dir root =
     (let p = path_Join dir n;
          pdir = path_Dir p in
      case os_MkdirAll pdir root of (err, root1) \<Rightarrow>
        if err \<noteq> None then (err, root1)
        else (case os_WriteFile p data root1 of (err2, root2) \<Rightarrow>
                if err2 \<noteq> None then (err2, root2)
                else Files_Write rest dir root2))"

section \<open>Example file systems\<close>

text \<open>
  A small \<open>fs.FS\<close>: directory \<open>/r\<close> holds the file \<open>a\<close> and the directory
  \<open>d\<close>, which holds the file \<open>b\<close>; nothing else exists.
\<close>

definition fsys_small :: fsys where
  "fsys_small =
     \<lparr>fs_ReadDir = (\<lambda>d.
          if d = ''/r'' then ([\<lparr>Name = ''a'', IsDir = False\<rparr>, \<lparr>Name = ''d'', IsDir = True\<rparr>], None)
          else if d = ''/r/d'' then ([\<lparr>Name = ''b'', IsDir = False\<rparr>], None)
          else ([], Some ErrNotExist)),
      fs_ReadFile = (\<lambda>p.
          if p = ''/r/a'' then (Some ''hi'', None)
          else if p = ''/r/d/b'' then (Some ''yo'', None)
          else (None, Some ErrNotExist))\<rparr>"

section \<open>Auxiliary functions of the proofs\<close>

definition depth0_entry :: "DirEntry \<Rightarrow> dirs" where
  "depth0_entry e = (if IsDir e then Dirs [] else DNil)"

definition depth0_scan :: "DirEntry list \<Rightarrow> (string \<times> dirs) list" where
  "depth0_scan es = fold (\<lambda>e. AList.update (Name e) (depth0_entry e)) es []"

definition file_key :: "string \<Rightarrow> DirEntry \<Rightarrow> string" where
  "file_key subDir e = path_Join subDir (Name e)"

definition file_data :: "fsys \<Rightarrow> string \<Rightarrow> string \<Rightarrow> DirEntry \<Rightarrow> bytes" where
  "file_data fsys rootDir subDir e =
     fst (fs_ReadFile fsys (path_Join (path_Join rootDir subDir) (Name e)))"

definition file_read_ok :: "fsys \<Rightarrow> string \<Rightarrow> string \<Rightarrow> DirEntry \<Rightarrow> bool" where
  "file_read_ok fsys rootDir subDir e =
     (let err = snd (fs_ReadFile fsys (path_Join (path_Join rootDir subDir) (Name e)))
      in err = None \<or> err = Some EOF)"

definition depth0_files :: "fsys \<Rightarrow> string \<Rightarrow> string \<Rightarrow> DirEntry list \<Rightarrow> files \<Rightarrow> files" where
  "depth0_files fsys rootDir subDir es f =
     fold (\<lambda>e. AList.update (file_key subDir e) (file_data fsys rootDir subDir e))
       (filter (\<lambda>e. \<not> IsDir e) es) f"

definition listing_EOF_as_nil :: "fsys \<Rightarrow> fsys" where
  "listing_EOF_as_nil fsys =
     fsys\<lparr>fs_ReadDir := (\<lambda>d. case fs_ReadDir fsys d of
                (es, err) \<Rightarrow> (es, if err = Some EOF then None else err))\<rparr>"

definition fsys_eof :: fsys where
  "fsys_eof =
     \<lparr>fs_ReadDir = (\<lambda>d.
          if d = ''/r'' then
            ([\<lparr>Name = ''a'', IsDir = False\<rparr>, \<lparr>Name = ''d'', IsDir = True\<rparr>], Some EOF)
          else if d = ''/r/d'' then ([\<lparr>Name = ''b'', IsDir = False\<rparr>], Some EOF)
          else ([], Some ErrNotExist)),
      fs_ReadFile = (\<lambda>p.
          if p = ''/r/a'' then (Some ''hi'', None)
          else if p = ''/r/d/b'' then (Some ''yo'', None)
          else (None, Some ErrNotExist))\<rparr>"

text \<open>
  In \<open>fsys_unreadable\<close> the directory \<open>/r\<close> holds the file \<open>a\<close> and the directory
  \<open>d\<close>; \<open>d\<close> holds the files \<open>y\<close> and \<open>z\<close>, and \<open>z\<close> cannot be read.
\<close>

definition fsys_unreadable :: fsys where
  "fsys_unreadable =
     \<lparr>fs_ReadDir = (\<lambda>d.
          if d = ''/r'' then
            ([\<lparr>Name = ''a'', IsDir = False\<rparr>, \<lparr>Name = ''d'', IsDir = True\<rparr>], None)
          else if d = ''/r/d'' then
            ([\<lparr>Name = ''y'', IsDir = False\<rparr>, \<lparr>Name = ''z'', IsDir = False\<rparr>], None)
          else ([], Some ErrNotExist)),
      fs_ReadFile = (\<lambda>p.
          if p = ''/r/a'' then (Some ''hi'', None)
          else if p = ''/r/d/y'' then (Some ''yo'', None)
          else if p = ''/r/d/z'' then (None, Some (ErrOther 5))
          else (None, Some ErrNotExist))\<rparr>"

text \<open>
  What a scan records for an entry that it passes without error: \<open>sub\<close> gives
  the snapshot that the nested scan of a directory returns.
\<close>

definition dirs_record :: "int \<Rightarrow> (DirEntry \<Rightarrow> dirs) \<Rightarrow> DirEntry \<Rightarrow> (string \<times> dirs) list
    \<Rightarrow> (string \<times> dirs) list" where
  "dirs_record n sub e t =
     AList.update (Name e) (if \<not> IsDir e then DNil else if n = 0 then Dirs [] else sub e) t"

definition files_record :: "fsys \<Rightarrow> string \<Rightarrow> string \<Rightarrow> int \<Rightarrow> (DirEntry \<Rightarrow> files \<Rightarrow> files)
    \<Rightarrow> DirEntry \<Rightarrow> files \<Rightarrow> files" where
  "files_record fsys rootDir subDir n sub e f =
     (if \<not> IsDir e then
        AList.update (path_Join subDir (Name e))
          (fst (fs_ReadFile fsys (path_Join (path_Join rootDir subDir) (Name e)))) f
      else if n \<noteq> 0 then sub e f
      else f)"

definition fsys_broken :: fsys where
  "fsys_broken =
     \<lparr>fs_ReadDir = (\<lambda>d.
          if d = ''/r'' then
            ([\<lparr>Name = ''a'', IsDir = False\<rparr>, \<lparr>Name = ''d'', IsDir = True\<rparr>,
              \<lparr>Name = ''z'', IsDir = False\<rparr>], None)
          else if d = ''/r/d'' then ([], Some (ErrOther 13))
          else ([], Some ErrNotExist)),
      fs_ReadFile = (\<lambda>p.
          if p = ''/r/a'' then (Some ''hi'', None)
          else if p = ''/r/z'' then (None, Some (ErrOther 5))
          else (None, Some ErrNotExist))\<rparr>"

definition valid_name :: "string \<Rightarrow> bool" where
  "valid_name x = (x \<noteq> [] \<and> x \<noteq> ''.'' \<and> x \<noteq> ''..'' \<and> CHR ''/'' \<notin> set x)"

definition dots_then_names :: "string list \<Rightarrow> bool" where
  "dots_then_names out = (\<exists>k ns. out = replicate k ''..'' @ ns \<and> list_all valid_name ns)"

definition strip_dots :: "string list \<Rightarrow> string list" where
  "strip_dots out = dropWhile (\<lambda>x. x = ''..'') out"

definition dir_at :: "node \<Rightarrow> string list \<Rightarrow> bool" where
  "dir_at root q = (case walk root q of Inr (Dir es) \<Rightarrow> True | _ \<Rightarrow> False)"

definition keeps_dirs :: "node \<Rightarrow> node \<Rightarrow> bool" where
  "keeps_dirs root root' = (\<forall>q. dir_at root q \<longrightarrow> dir_at root' q)"

definition keeps_files :: "node \<Rightarrow> node \<Rightarrow> bool" where
  "keeps_files root root' = (\<forall>q c. walk root q = Inr (File c) \<longrightarrow> walk root' q = Inr (File c))"

definition disk_tmp :: node where
  "disk_tmp = Dir [(''tmp'', Dir [(''f'', File ''old''), (''d'', Dir [])])]"

definition keeps_empty_files :: "node \<Rightarrow> node \<Rightarrow> bool" where
  "keeps_empty_files root root' = (\<forall>q. walk root q = Inr (File []) \<longrightarrow> walk root' q = Inr (File []))"

text \<open>
  Two association lists that stand for the same Go map: the same keys, and
  equal snapshots (in this sense) under each key. The order of the entries,
  which is the order of a \<open>range\<close> over the map, is left open.
\<close>

fun dirs_eq :: "dirs \<Rightarrow> dirs \<Rightarrow> bool" where
  "dirs_eq DNil DNil = True"
| "dirs_eq (Dirs xs) (Dirs ys) =
     (fst ` set xs = fst ` set ys
      \<and> (\<forall>(k, v)\<in>set xs. \<forall>(k', v')\<in>set ys. k = k' \<longrightarrow> dirs_eq v v'))"
| "dirs_eq DNil (Dirs ys) = False"
| "dirs_eq (Dirs xs) DNil = False"



section \<open>Folding updates into an association list\<close>

lemma fold_update_keys:
  "fst ` set (fold (\<lambda>e. AList.update (f e) (g e)) es t) = f ` set es \<union> fst ` set t"
  by (induction es arbitrary: t) (auto simp: AList.dom_update)

lemma fold_update_distinct:
  "distinct (map fst t) \<Longrightarrow> distinct (map fst (fold (\<lambda>e. AList.update (f e) (g e)) es t))"
  by (induction es arbitrary: t) (auto simp: AList.distinct_update)

lemma fold_update_agree:
  "e \<in> set es \<Longrightarrow> \<forall>e'\<in>set es. f e' = f e \<longrightarrow> g e' = g e \<Longrightarrow>
     map_of (fold (\<lambda>e. AList.update (f e) (g e)) es t) (f e) = Some (g e)"
proof (induction es rule: rev_induct)
  case Nil
  then show ?case by simp
next
  case (snoc a es)
  show ?case
  proof (cases "f a = f e")
    case True
    with snoc.prems show ?thesis by (simp add: AList.update_conv')
  next
    case False
    with snoc.prems have 1: "e \<in> set es"
      and 2: "\<forall>e'\<in>set es. f e' = f e \<longrightarrow> g e' = g e" by auto
    have "map_of (fold (\<lambda>e. AList.update (f e) (g e)) es t) (f e) = Some (g e)"
      by (rule snoc.IH [OF 1 2])
    with False show ?thesis by (simp add: AList.update_conv')
  qed
qed

section \<open>dirsnap: scanning with depth 0\<close>

lemma ReadFS_loop_depth0:
  "ReadFS_loop k fsys dir 0 es t =
     Some (Dirs (fold (\<lambda>e. AList.update (Name e) (depth0_entry e)) es t), None)"
  by (induction es arbitrary: t) (simp_all add: depth0_entry_def)

lemma depth0_run:
  assumes "fs_ReadDir fsys dir = (entries, err)" and "err = None \<or> err = Some EOF"
  shows "ReadFS (Suc k) fsys dir 0 = Some (Dirs (depth0_scan entries), None)"
  using assms by (auto simp: ReadFS_loop_depth0 depth0_scan_def)

lemma depth0_keys: "fst ` set (depth0_scan es) = Name ` set es"
  unfolding depth0_scan_def by (simp add: fold_update_keys)

lemma depth0_distinct: "distinct (map fst (depth0_scan es))"
  unfolding depth0_scan_def by (rule fold_update_distinct) simp

lemma depth0_val:
  assumes "e \<in> set es" and "\<forall>e'\<in>set es. Name e' = Name e \<longrightarrow> IsDir e' = IsDir e"
  shows "map_of (depth0_scan es) (Name e) = Some (if IsDir e then Dirs [] else DNil)"
proof -
  have "\<forall>e'\<in>set es. Name e' = Name e \<longrightarrow> depth0_entry e' = depth0_entry e"
    using assms(2) by (simp add: depth0_entry_def)
  with assms(1) have "map_of (depth0_scan es) (Name e) = Some (depth0_entry e)"
    unfolding depth0_scan_def by (rule fold_update_agree)
  then show ?thesis by (simp add: depth0_entry_def)
qed

text \<open>
  Claim C5. When the listing of \<open>dir\<close> succeeds (or ends with \<open>io.EOF\<close>),
  \<open>dirsnap.ReadFS\<close> with depth 0 returns without error a map whose keys are
  exactly the names listed; a listed file is the nil marker and a listed
  directory is the empty map. One unit of fuel is enough, so no nested call is
  made, and the result is the same for every file system that lists \<open>dir\<close> in
  the same way: what the subdirectories hold is not looked at.
\<close>

theorem dirsnap_depth0_immediate_entries:
  assumes "fs_ReadDir fsys dir = (entries, err)" and "err = None \<or> err = Some EOF"
  shows "\<exists>t. ReadFS (Suc k) fsys dir 0 = Some (Dirs t, None)
           \<and> distinct (map fst t)
           \<and> fst ` set t = Name ` set entries
           \<and> (\<forall>e\<in>set entries. (\<forall>e'\<in>set entries. Name e' = Name e \<longrightarrow> IsDir e' = IsDir e)
                 \<longrightarrow> map_of t (Name e) = Some (if IsDir e then Dirs [] else DNil))
           \<and> (\<forall>fsys' k'. fs_ReadDir fsys' dir = fs_ReadDir fsys dir
                 \<longrightarrow> ReadFS (Suc k') fsys' dir 0 = Some (Dirs t, None))"
proof (intro exI conjI ballI allI impI)
  show "ReadFS (Suc k) fsys dir 0 = Some (Dirs (depth0_scan entries), None)"
    using assms by (rule depth0_run)
  show "distinct (map fst (depth0_scan entries))"
    by (rule depth0_distinct)
  show "fst ` set (depth0_scan entries) = Name ` set entries"
    by (rule depth0_keys)
  show "map_of (depth0_scan entries) (Name e) = Some (if IsDir e then Dirs [] else DNil)"
    if "e \<in> set entries" "\<forall>e'\<in>set entries. Name e' = Name e \<longrightarrow> IsDir e' = IsDir e" for e
    using that by (rule depth0_val)
  show "ReadFS (Suc k') fsys' dir 0 = Some (Dirs (depth0_scan entries), None)"
    if "fs_ReadDir fsys' dir = fs_ReadDir fsys dir" for fsys' k'
  proof -
    from that assms(1) have "fs_ReadDir fsys' dir = (entries, err)" by simp
    then show ?thesis using assms(2) by (rule depth0_run)
  qed
qed

theorem dirsnap_depth0_immediate_entries_witness:
  "fs_ReadDir fsys_small ''/r'' =
     ([\<lparr>Name = ''a'', IsDir = False\<rparr>, \<lparr>Name = ''d'', IsDir = True\<rparr>], None)
   \<and> (\<exists>t. ReadFS (Suc 0) fsys_small ''/r'' 0 = Some (Dirs t, None)
         \<and> map_of t ''a'' = Some DNil \<and> map_of t ''d'' = Some (Dirs []))"
proof -
  let ?es = "[\<lparr>Name = ''a'', IsDir = False\<rparr>, \<lparr>Name = ''d'', IsDir = True\<rparr>]"
  have h1: "fs_ReadDir fsys_small ''/r'' = (?es, None)"
    by (simp add: fsys_small_def)
  have h2: "(None :: error option) = None \<or> (None :: error option) = Some EOF"
    by simp
  from dirsnap_depth0_immediate_entries [OF h1 h2, of 0]
  obtain t where r: "ReadFS (Suc 0) fsys_small ''/r'' 0 = Some (Dirs t, None)"
    and v: "\<forall>e\<in>set ?es. (\<forall>e'\<in>set ?es. Name e' = Name e \<longrightarrow> IsDir e' = IsDir e)
                 \<longrightarrow> map_of t (Name e) = Some (if IsDir e then Dirs [] else DNil)"
    by blast
  from v have "map_of t ''a'' = Some DNil" and "map_of t ''d'' = Some (Dirs [])"
    by simp_all
  with h1 r show ?thesis by blast
qed

section \<open>filesnap: scanning with depth 0\<close>

lemma readFS_loop_depth0:
  "\<forall>e\<in>set es. \<not> IsDir e \<longrightarrow> file_read_ok fsys rootDir subDir e \<Longrightarrow>
   readFS_loop k fsys rootDir subDir 0 es f =
     Some (depth0_files fsys rootDir subDir es f, None)"
proof (induction es arbitrary: f)
  case Nil
  show ?case by (simp add: depth0_files_def)
next
  case (Cons e es)
  from Cons.prems have rest: "\<forall>e\<in>set es. \<not> IsDir e \<longrightarrow> file_read_ok fsys rootDir subDir e"
    by simp
  note IH = Cons.IH [OF rest]
  show ?case
  proof (cases "IsDir e")
    case True
    then show ?thesis by (simp add: IH depth0_files_def)
  next
    case False
    with Cons.prems have ok: "file_read_ok fsys rootDir subDir e" by simp
    obtain data err where rd:
      "fs_ReadFile fsys (path_Join (path_Join rootDir subDir) (Name e)) = (data, err)"
      by (cases "fs_ReadFile fsys (path_Join (path_Join rootDir subDir) (Name e))")
    from ok rd have "err = None \<or> err = Some EOF"
      by (simp add: file_read_ok_def)
    with False rd show ?thesis
      by (auto simp: IH depth0_files_def file_key_def file_data_def)
  qed
qed


lemma depth0_files_keys:
  "fst ` set (depth0_files fsys rootDir subDir es []) =
     file_key subDir ` {e \<in> set es. \<not> IsDir e}"
  unfolding depth0_files_def by (simp add: fold_update_keys)

lemma depth0_files_distinct: "distinct (map fst (depth0_files fsys rootDir subDir es []))"
  unfolding depth0_files_def by (rule fold_update_distinct) simp

lemma depth0_files_val:
  assumes "e \<in> set es" and "\<not> IsDir e"
    and "\<forall>e'\<in>set es. \<not> IsDir e' \<and> file_key subDir e' = file_key subDir e \<longrightarrow> Name e' = Name e"
  shows "map_of (depth0_files fsys rootDir subDir es []) (file_key subDir e) =
           Some (file_data fsys rootDir subDir e)"
proof -
  have 1: "e \<in> set (filter (\<lambda>e. \<not> IsDir e) es)"
    using assms(1,2) by simp
  have 2: "\<forall>e'\<in>set (filter (\<lambda>e. \<not> IsDir e) es). file_key subDir e' = file_key subDir e
             \<longrightarrow> file_data fsys rootDir subDir e' = file_data fsys rootDir subDir e"
    using assms(3) by (auto simp: file_data_def)
  show ?thesis
    unfolding depth0_files_def using 1 2 by (rule fold_update_agree)
qed

lemma filesnap_depth0_run:
  assumes "fs_ReadDir fsys (path_Join dir []) = (entries, err)" and "err = None \<or> err = Some EOF"
    and "\<forall>e\<in>set entries. \<not> IsDir e \<longrightarrow> file_read_ok fsys dir [] e"
  shows "filesnap_ReadFS (Suc k) fsys dir 0 = Some (depth0_files fsys dir [] entries [], None)"
proof -
  have "readFS_loop k fsys dir [] 0 entries [] = Some (depth0_files fsys dir [] entries [], None)"
    using assms(3) by (rule readFS_loop_depth0)
  with assms(1,2) show ?thesis
    by (auto simp: filesnap_ReadFS_def)
qed

lemma depth0_files_cong:
  assumes "\<forall>p. fs_ReadFile fsys' p = fs_ReadFile fsys p"
  shows "depth0_files fsys' rootDir subDir es f = depth0_files fsys rootDir subDir es f"
  using assms by (simp add: depth0_files_def file_data_def)

text \<open>
  Claim C6. When the listing of the root succeeds (or ends with \<open>io.EOF\<close>) and
  every listed file can be read, \<open>filesnap.ReadFS\<close> with depth 0 returns without
  error a map whose keys are exactly the keys of the files listed in the root,
  each with the data read from it. A listed directory contributes no key. One
  unit of fuel is enough, so no directory below the root is listed, and the
  result is the same for every file system that agrees on the listing of the
  root and on the files' data, whatever it holds below.
\<close>

theorem filesnap_depth0_root_files:
  assumes "fs_ReadDir fsys (path_Join dir []) = (entries, err)" and "err = None \<or> err = Some EOF"
    and "\<forall>e\<in>set entries. \<not> IsDir e \<longrightarrow>
           (let rerr = snd (fs_ReadFile fsys (path_Join (path_Join dir []) (Name e)))
            in rerr = None \<or> rerr = Some EOF)"
  shows "\<exists>f. filesnap_ReadFS (Suc k) fsys dir 0 = Some (f, None)
           \<and> distinct (map fst f)
           \<and> fst ` set f = (\<lambda>e. path_Join [] (Name e)) ` {e \<in> set entries. \<not> IsDir e}
           \<and> (\<forall>e\<in>set entries. \<not> IsDir e
                  \<and> (\<forall>e'\<in>set entries. \<not> IsDir e' \<and> path_Join [] (Name e') = path_Join [] (Name e)
                        \<longrightarrow> Name e' = Name e)
                 \<longrightarrow> map_of f (path_Join [] (Name e)) =
                       Some (fst (fs_ReadFile fsys (path_Join (path_Join dir []) (Name e)))))
           \<and> (\<forall>fsys' k'. fs_ReadDir fsys' (path_Join dir []) = fs_ReadDir fsys (path_Join dir [])
                  \<and> (\<forall>p. fs_ReadFile fsys' p = fs_ReadFile fsys p)
                 \<longrightarrow> filesnap_ReadFS (Suc k') fsys' dir 0 = Some (f, None))"
proof (intro exI conjI ballI allI impI)
  have ok: "\<forall>e\<in>set entries. \<not> IsDir e \<longrightarrow> file_read_ok fsys dir [] e"
    using assms(3) by (simp add: file_read_ok_def)
  show "filesnap_ReadFS (Suc k) fsys dir 0 = Some (depth0_files fsys dir [] entries [], None)"
    using assms(1,2) ok by (rule filesnap_depth0_run)
  show "distinct (map fst (depth0_files fsys dir [] entries []))"
    by (rule depth0_files_distinct)
  show "fst ` set (depth0_files fsys dir [] entries []) =
          (\<lambda>e. path_Join [] (Name e)) ` {e \<in> set entries. \<not> IsDir e}"
    using depth0_files_keys [of fsys dir "[]" entries] by (simp add: file_key_def [abs_def])
  show "map_of (depth0_files fsys dir [] entries []) (path_Join [] (Name e)) =
          Some (fst (fs_ReadFile fsys (path_Join (path_Join dir []) (Name e))))"
    if "e \<in> set entries"
      and "\<not> IsDir e \<and> (\<forall>e'\<in>set entries. \<not> IsDir e' \<and> path_Join [] (Name e') = path_Join [] (Name e)
                        \<longrightarrow> Name e' = Name e)" for e
  proof -
    from that(2) have a: "\<not> IsDir e"
      and b: "\<forall>e'\<in>set entries. \<not> IsDir e' \<and> file_key [] e' = file_key [] e \<longrightarrow> Name e' = Name e"
      by (simp_all add: file_key_def)
    from depth0_files_val [OF that(1) a b, of fsys dir]
    show ?thesis by (simp add: file_key_def file_data_def)
  qed
  show "filesnap_ReadFS (Suc k') fsys' dir 0 = Some (depth0_files fsys dir [] entries [], None)"
    if "fs_ReadDir fsys' (path_Join dir []) = fs_ReadDir fsys (path_Join dir [])
          \<and> (\<forall>p. fs_ReadFile fsys' p = fs_ReadFile fsys p)" for fsys' k'
  proof -
    from that assms(1) have l: "fs_ReadDir fsys' (path_Join dir []) = (entries, err)" by simp
    from that have rf: "\<forall>p. fs_ReadFile fsys' p = fs_ReadFile fsys p" by simp
    have ok': "\<forall>e\<in>set entries. \<not> IsDir e \<longrightarrow> file_read_ok fsys' dir [] e"
      using ok rf by (simp add: file_read_ok_def)
    have "filesnap_ReadFS (Suc k') fsys' dir 0 = Some (depth0_files fsys' dir [] entries [], None)"
      using l assms(2) ok' by (rule filesnap_depth0_run)
    then show ?thesis by (simp add: depth0_files_cong [OF rf])
  qed
qed

theorem filesnap_depth0_root_files_witness:
  "fs_ReadDir fsys_small (path_Join ''/r'' []) =
     ([\<lparr>Name = ''a'', IsDir = False\<rparr>, \<lparr>Name = ''d'', IsDir = True\<rparr>], None)
   \<and> fs_ReadFile fsys_small (path_Join (path_Join ''/r'' []) ''a'') = (Some ''hi'', None)
   \<and> (\<exists>f. filesnap_ReadFS (Suc 0) fsys_small ''/r'' 0 = Some (f, None)
         \<and> fst ` set f = {''a''} \<and> map_of f ''a'' = Some (Some ''hi''))"
proof -
  let ?es = "[\<lparr>Name = ''a'', IsDir = False\<rparr>, \<lparr>Name = ''d'', IsDir = True\<rparr>]"
  have j1: "path_Join ''/r'' [] = ''/r''"
    by (simp add: path_Join_def path_Clean_def clean_elems_def clean_step_def)
  have j2: "path_Join ''/r'' ''a'' = ''/r/a''"
    by (simp add: path_Join_def path_Clean_def clean_elems_def clean_step_def)
  have j3: "path_Join [] ''a'' = ''a''"
    by (simp add: path_Join_def path_Clean_def clean_elems_def clean_step_def)
  have h1: "fs_ReadDir fsys_small (path_Join ''/r'' []) = (?es, None)"
    by (simp add: j1 fsys_small_def)
  have h2: "(None :: error option) = None \<or> (None :: error option) = Some EOF"
    by simp
  have rd: "fs_ReadFile fsys_small (path_Join (path_Join ''/r'' []) ''a'') = (Some ''hi'', None)"
    by (simp add: j1 j2 fsys_small_def)
  have h3: "\<forall>e\<in>set ?es. \<not> IsDir e \<longrightarrow>
           (let rerr = snd (fs_ReadFile fsys_small (path_Join (path_Join ''/r'' []) (Name e)))
            in rerr = None \<or> rerr = Some EOF)"
    by (simp add: rd)
  from filesnap_depth0_root_files [OF h1 h2 h3, of 0]
  obtain f where r: "filesnap_ReadFS (Suc 0) fsys_small ''/r'' 0 = Some (f, None)"
    and ks: "fst ` set f = (\<lambda>e. path_Join [] (Name e)) ` {e \<in> set ?es. \<not> IsDir e}"
    and v: "\<forall>e\<in>set ?es. \<not> IsDir e
                  \<and> (\<forall>e'\<in>set ?es. \<not> IsDir e' \<and> path_Join [] (Name e') = path_Join [] (Name e)
                        \<longrightarrow> Name e' = Name e)
                 \<longrightarrow> map_of f (path_Join [] (Name e)) =
                       Some (fst (fs_ReadFile fsys_small (path_Join (path_Join ''/r'' []) (Name e))))"
    by blast
  have "{e \<in> set ?es. \<not> IsDir e} = {\<lparr>Name = ''a'', IsDir = False\<rparr>}" by auto
  with ks have ks': "fst ` set f = {''a''}" by (simp add: j3)
  from v have "map_of f ''a'' = Some (Some ''hi'')"
    by (simp add: j3 rd)
  with h1 rd r ks' show ?thesis by blast
qed

section \<open>Both scanners: end of listing\<close>

lemma fs_ReadDir_listing_EOF:
  "fs_ReadDir (listing_EOF_as_nil fsys) d =
     (fst (fs_ReadDir fsys d),
      if snd (fs_ReadDir fsys d) = Some EOF then None else snd (fs_ReadDir fsys d))"
  by (simp add: listing_EOF_as_nil_def split: prod.splits)

lemma fs_ReadFile_listing_EOF: "fs_ReadFile (listing_EOF_as_nil fsys) = fs_ReadFile fsys"
  by (simp add: listing_EOF_as_nil_def)

lemma ReadFS_loop_cong:
  assumes "\<And>d m. ReadFS k fsys' d m = ReadFS k fsys d m"
  shows "ReadFS_loop k fsys' dir n es t = ReadFS_loop k fsys dir n es t"
proof (induction es arbitrary: t n)
  case Nil
  show ?case by simp
next
  case (Cons e es)
  show ?case by (simp add: assms Cons.IH Let_def split: option.splits)
qed

lemma ReadFS_listing_EOF:
  "ReadFS k (listing_EOF_as_nil fsys) dir n = ReadFS k fsys dir n"
proof (induction k arbitrary: dir n)
  case 0
  show ?case by simp
next
  case (Suc k)
  have loop: "ReadFS_loop k (listing_EOF_as_nil fsys) dir n es t = ReadFS_loop k fsys dir n es t"
    for es t
    by (rule ReadFS_loop_cong) (rule Suc.IH)
  obtain es err where l: "fs_ReadDir fsys dir = (es, err)"
    by (cases "fs_ReadDir fsys dir")
  show ?case
    by (simp add: l loop fs_ReadDir_listing_EOF)
qed

lemma ReadFS_loop_never_EOF:
  assumes "\<And>d m r e. ReadFS k fsys d m = Some (r, e) \<Longrightarrow> e \<noteq> Some EOF"
  shows "ReadFS_loop k fsys dir n es t = Some (r, err) \<Longrightarrow> err \<noteq> Some EOF"
proof (induction es arbitrary: t)
  case Nil
  then show ?case by simp
next
  case (Cons e es)
  consider (plain) "\<not> IsDir e" | (cutoff) "IsDir e" "n = 0" | (descend) "IsDir e" "n \<noteq> 0"
    by blast
  then show ?case
  proof cases
    case plain
    with Cons.prems
    have "ReadFS_loop k fsys dir n es (AList.update (Name e) DNil t) = Some (r, err)"
      by (simp add: Let_def)
    then show ?thesis by (rule Cons.IH)
  next
    case cutoff
    with Cons.prems
    have "ReadFS_loop k fsys dir n es (AList.update (Name e) (Dirs []) t) = Some (r, err)"
      by (simp add: Let_def)
    then show ?thesis by (rule Cons.IH)
  next
    case descend
    show ?thesis
    proof (cases "ReadFS k fsys (path_Join dir (Name e)) (n - 1)")
      case None
      with descend Cons.prems show ?thesis by (simp add: Let_def)
    next
      case (Some res)
      obtain sub e1 where res: "res = (sub, e1)" by (cases res)
      with Some have call: "ReadFS k fsys (path_Join dir (Name e)) (n - 1) = Some (sub, e1)"
        by simp
      show ?thesis
      proof (cases e1)
        case None
        with descend call Cons.prems
        have "ReadFS_loop k fsys dir n es (AList.update (Name e) sub t) = Some (r, err)"
          by (simp add: Let_def)
        then show ?thesis by (rule Cons.IH)
      next
        case (Some x)
        with descend call Cons.prems have "err = e1" by (simp add: Let_def)
        moreover from call have "e1 \<noteq> Some EOF" by (rule assms)
        ultimately show ?thesis by simp
      qed
    qed
  qed
qed

lemma ReadFS_never_EOF:
  "ReadFS k fsys dir n = Some (r, err) \<Longrightarrow> err \<noteq> Some EOF"
proof (induction k arbitrary: dir n r err)
  case 0
  then show ?case by simp
next
  case (Suc k)
  obtain es e0 where l: "fs_ReadDir fsys dir = (es, e0)"
    by (cases "fs_ReadDir fsys dir")
  show ?case
  proof (cases "e0 \<noteq> None \<and> e0 \<noteq> Some EOF")
    case True
    with Suc.prems l show ?thesis by auto
  next
    case False
    with Suc.prems l have "ReadFS_loop k fsys dir n es [] = Some (r, err)" by auto
    then show ?thesis
      by (rule ReadFS_loop_never_EOF [rotated]) (rule Suc.IH)
  qed
qed

lemma readFS_loop_cong:
  assumes "\<And>sp m g. readFS k fsys' rootDir sp m g = readFS k fsys rootDir sp m g"
    and "fs_ReadFile fsys' = fs_ReadFile fsys"
  shows "readFS_loop k fsys' rootDir subDir n es f = readFS_loop k fsys rootDir subDir n es f"
proof (induction es arbitrary: f n)
  case Nil
  show ?case by simp
next
  case (Cons e es)
  show ?case
    by (simp add: assms Cons.IH Let_def split: option.splits prod.splits)
qed

lemma readFS_listing_EOF:
  "readFS k (listing_EOF_as_nil fsys) rootDir subDir n f = readFS k fsys rootDir subDir n f"
proof (induction k arbitrary: subDir n f)
  case 0
  show ?case by simp
next
  case (Suc k)
  have loop: "readFS_loop k (listing_EOF_as_nil fsys) rootDir subDir n es g =
                readFS_loop k fsys rootDir subDir n es g" for es g
    by (rule readFS_loop_cong) (rule Suc.IH, rule fs_ReadFile_listing_EOF)
  obtain es err where l: "fs_ReadDir fsys (path_Join rootDir subDir) = (es, err)"
    by (cases "fs_ReadDir fsys (path_Join rootDir subDir)")
  show ?case
    by (simp add: l loop fs_ReadDir_listing_EOF Let_def)
qed

lemma readFS_loop_never_EOF:
  assumes "\<And>sp m g r e. readFS k fsys rootDir sp m g = Some (r, e) \<Longrightarrow> e \<noteq> Some EOF"
  shows "readFS_loop k fsys rootDir subDir n es f = Some (r, err) \<Longrightarrow> err \<noteq> Some EOF"
proof (induction es arbitrary: f)
  case Nil
  then show ?case by simp
next
  case (Cons e es)
  let ?p = "path_Join (path_Join rootDir subDir) (Name e)"
  let ?sp = "path_Join subDir (Name e)"
  consider (plain) "\<not> IsDir e" | (cutoff) "IsDir e" "n = 0" | (descend) "IsDir e" "n \<noteq> 0"
    by blast
  then show ?case
  proof cases
    case plain
    obtain data e1 where rd: "fs_ReadFile fsys ?p = (data, e1)"
      by (cases "fs_ReadFile fsys ?p")
    show ?thesis
    proof (cases "e1 \<noteq> None \<and> e1 \<noteq> Some EOF")
      case True
      with plain rd Cons.prems have "err = e1" by (simp add: Let_def)
      with True show ?thesis by simp
    next
      case False
      with plain rd Cons.prems
      have "readFS_loop k fsys rootDir subDir n es (AList.update ?sp data f) = Some (r, err)"
        by (auto simp: Let_def)
      then show ?thesis by (rule Cons.IH)
    qed
  next
    case cutoff
    with Cons.prems have "readFS_loop k fsys rootDir subDir n es f = Some (r, err)"
      by (simp add: Let_def)
    then show ?thesis by (rule Cons.IH)
  next
    case descend
    show ?thesis
    proof (cases "readFS k fsys rootDir ?sp (n - 1) f")
      case None
      with descend Cons.prems show ?thesis by (simp add: Let_def)
    next
      case (Some res)
      obtain f' e1 where res: "res = (f', e1)" by (cases res)
      with Some have call: "readFS k fsys rootDir ?sp (n - 1) f = Some (f', e1)"
        by simp
      show ?thesis
      proof (cases e1)
        case None
        with descend call Cons.prems
        have "readFS_loop k fsys rootDir subDir n es f' = Some (r, err)"
          by (simp add: Let_def)
        then show ?thesis by (rule Cons.IH)
      next
        case (Some x)
        with descend call Cons.prems have "err = e1" by (simp add: Let_def)
        moreover from call have "e1 \<noteq> Some EOF" by (rule assms)
        ultimately show ?thesis by simp
      qed
    qed
  qed
qed

lemma readFS_never_EOF:
  "readFS k fsys rootDir subDir n f = Some (r, err) \<Longrightarrow> err \<noteq> Some EOF"
proof (induction k arbitrary: subDir n f r err)
  case 0
  then show ?case by simp
next
  case (Suc k)
  obtain es e0 where l: "fs_ReadDir fsys (path_Join rootDir subDir) = (es, e0)"
    by (cases "fs_ReadDir fsys (path_Join rootDir subDir)")
  show ?case
  proof (cases "e0 \<noteq> None \<and> e0 \<noteq> Some EOF")
    case True
    with Suc.prems l show ?thesis by (auto simp: Let_def)
  next
    case False
    with Suc.prems l have "readFS_loop k fsys rootDir subDir n es f = Some (r, err)"
      by (auto simp: Let_def)
    then show ?thesis
      by (rule readFS_loop_never_EOF [rotated]) (rule Suc.IH)
  qed
qed

section \<open>Both scanners: errors and partial results\<close>

lemma ReadFS_loop_append:
  "ReadFS_loop k fsys dir n pre t = Some (Dirs t', None) \<Longrightarrow>
   ReadFS_loop k fsys dir n (pre @ rest) t = ReadFS_loop k fsys dir n rest t'"
proof (induction pre arbitrary: t)
  case Nil
  then show ?case by simp
next
  case (Cons e pre)
  consider (plain) "\<not> IsDir e" | (cutoff) "IsDir e" "n = 0" | (descend) "IsDir e" "n \<noteq> 0"
    by blast
  then show ?case
  proof cases
    case plain
    with Cons.prems
    have "ReadFS_loop k fsys dir n pre (AList.update (Name e) DNil t) = Some (Dirs t', None)"
      by (simp add: Let_def)
    from Cons.IH [OF this] plain show ?thesis by (simp add: Let_def)
  next
    case cutoff
    with Cons.prems
    have "ReadFS_loop k fsys dir n pre (AList.update (Name e) (Dirs []) t) = Some (Dirs t', None)"
      by (simp add: Let_def)
    from Cons.IH [OF this] cutoff show ?thesis by (simp add: Let_def)
  next
    case descend
    show ?thesis
    proof (cases "ReadFS k fsys (path_Join dir (Name e)) (n - 1)")
      case None
      with descend Cons.prems show ?thesis by (simp add: Let_def)
    next
      case (Some res)
      obtain sub e1 where res: "res = (sub, e1)" by (cases res)
      with Some have call: "ReadFS k fsys (path_Join dir (Name e)) (n - 1) = Some (sub, e1)"
        by simp
      show ?thesis
      proof (cases e1)
        case None
        with descend call Cons.prems
        have "ReadFS_loop k fsys dir n pre (AList.update (Name e) sub t) = Some (Dirs t', None)"
          by (simp add: Let_def)
        from Cons.IH [OF this] descend call None show ?thesis by (simp add: Let_def)
      next
        case (Some x)
        with descend call Cons.prems show ?thesis by (simp add: Let_def)
      qed
    qed
  qed
qed

lemma readFS_loop_append:
  "readFS_loop k fsys rootDir subDir n pre f = Some (f', None) \<Longrightarrow>
   readFS_loop k fsys rootDir subDir n (pre @ rest) f = readFS_loop k fsys rootDir subDir n rest f'"
proof (induction pre arbitrary: f)
  case Nil
  then show ?case by simp
next
  case (Cons e pre)
  let ?p = "path_Join (path_Join rootDir subDir) (Name e)"
  let ?sp = "path_Join subDir (Name e)"
  consider (plain) "\<not> IsDir e" | (cutoff) "IsDir e" "n = 0" | (descend) "IsDir e" "n \<noteq> 0"
    by blast
  then show ?case
  proof cases
    case plain
    obtain data e1 where rd: "fs_ReadFile fsys ?p = (data, e1)"
      by (cases "fs_ReadFile fsys ?p")
    show ?thesis
    proof (cases "e1 \<noteq> None \<and> e1 \<noteq> Some EOF")
      case True
      with plain rd Cons.prems show ?thesis by (auto simp: Let_def)
    next
      case False
      with plain rd Cons.prems
      have "readFS_loop k fsys rootDir subDir n pre (AList.update ?sp data f) = Some (f', None)"
        by (auto simp: Let_def)
      from Cons.IH [OF this] plain rd False show ?thesis by (auto simp: Let_def)
    qed
  next
    case cutoff
    with Cons.prems have "readFS_loop k fsys rootDir subDir n pre f = Some (f', None)"
      by (simp add: Let_def)
    from Cons.IH [OF this] cutoff show ?thesis by (simp add: Let_def)
  next
    case descend
    show ?thesis
    proof (cases "readFS k fsys rootDir ?sp (n - 1) f")
      case None
      with descend Cons.prems show ?thesis by (simp add: Let_def)
    next
      case (Some res)
      obtain g e1 where res: "res = (g, e1)" by (cases res)
      with Some have call: "readFS k fsys rootDir ?sp (n - 1) f = Some (g, e1)"
        by simp
      show ?thesis
      proof (cases e1)
        case None
        with descend call Cons.prems
        have "readFS_loop k fsys rootDir subDir n pre g = Some (f', None)"
          by (simp add: Let_def)
        from Cons.IH [OF this] descend call None show ?thesis by (simp add: Let_def)
      next
        case (Some x)
        with descend call Cons.prems show ?thesis by (simp add: Let_def)
      qed
    qed
  qed
qed

lemma path_Join_examples:
  "path_Join ''/r'' [] = ''/r''"
  "path_Join ''/r/d'' [] = ''/r/d''"
  "path_Join ''/r'' ''a'' = ''/r/a''"
  "path_Join ''/r'' ''d'' = ''/r/d''"
  "path_Join ''/r'' ''z'' = ''/r/z''"
  "path_Join [] ''a'' = ''a''"
  "path_Join [] ''d'' = ''d''"
  "path_Join [] ''z'' = ''z''"
  by (simp_all add: path_Join_def path_Clean_def clean_elems_def clean_step_def)

section \<open>Paths\<close>

lemma split_slash_nonempty [simp]: "split_slash s \<noteq> []"
  by (induction s) (auto split: list.splits)

lemma split_slash_noslash: "x \<in> set (split_slash s) \<Longrightarrow> CHR ''/'' \<notin> set x"
  by (induction s arbitrary: x) (auto split: list.splits if_splits)

lemma split_slash_append:
  "split_slash (a @ CHR ''/'' # b) = split_slash a @ split_slash b"
  by (induction a) (auto split: list.splits)

lemma split_slash_id: "CHR ''/'' \<notin> set x \<Longrightarrow> split_slash x = [x]"
  by (induction x) auto

lemma join_split_slash: "join_slash (split_slash s) = s"
proof (induction s)
  case Nil
  show ?case by simp
next
  case (Cons c s)
  obtain w ws where sp: "split_slash s = w # ws"
    by (cases "split_slash s") simp_all
  with Cons show ?case
    by (cases ws) auto
qed

lemma join_slash_snoc: "xs \<noteq> [] \<Longrightarrow> join_slash (xs @ [x]) = join_slash xs @ CHR ''/'' # x"
  by (induction xs rule: join_slash.induct) auto

lemma split_join_slash:
  "xs \<noteq> [] \<Longrightarrow> \<forall>x\<in>set xs. CHR ''/'' \<notin> set x \<Longrightarrow> split_slash (join_slash xs) = xs"
proof (induction xs rule: join_slash.induct)
  case 1
  then show ?case by simp
next
  case (2 x)
  then show ?case by (simp add: split_slash_id)
next
  case (3 x y ys)
  then show ?case by (simp add: split_slash_append split_slash_id)
qed

lemma clean_step_skip [simp]:
  "clean_step r out [] = out" "clean_step r out ''.'' = out"
  by (simp_all add: clean_step_def)

lemma clean_step_valid: "valid_name x \<Longrightarrow> clean_step r out x = out @ [x]"
  by (simp add: clean_step_def valid_name_def)

lemma foldl_clean_step_valid:
  "list_all valid_name xs \<Longrightarrow> foldl (clean_step r) out xs = out @ xs"
  by (induction xs arbitrary: out) (simp_all add: clean_step_valid)

lemma clean_step_True_valid:
  "list_all valid_name out \<Longrightarrow> CHR ''/'' \<notin> set x \<Longrightarrow> list_all valid_name (clean_step True out x)"
  by (auto simp: clean_step_def valid_name_def list_all_iff dest: in_set_butlastD)

lemma foldl_clean_step_True_valid:
  "list_all valid_name out \<Longrightarrow> \<forall>x\<in>set xs. CHR ''/'' \<notin> set x \<Longrightarrow>
     list_all valid_name (foldl (clean_step True) out xs)"
  by (induction xs arbitrary: out) (simp_all add: clean_step_True_valid)

lemma path_elems_valid: "list_all valid_name (path_elems p)"
  unfolding path_elems_def clean_elems_def
  by (rule foldl_clean_step_True_valid) (simp_all add: split_slash_noslash)

lemma dropWhile_replicate_same:
  "dropWhile (\<lambda>x. x = d) (replicate k d @ ys) = dropWhile (\<lambda>x. x = d) ys"
  by (induction k) simp_all

lemma strip_dots_shape:
  "list_all valid_name ns \<Longrightarrow> strip_dots (replicate k ''..'' @ ns) = ns"
  unfolding strip_dots_def dropWhile_replicate_same
  by (cases ns) (simp_all add: valid_name_def)

lemma last_dots_names:
  assumes "list_all valid_name ns" and "ns \<noteq> []"
  shows "last (replicate k ''..'' @ ns) \<noteq> ''..''"
proof -
  from assms have "last ns \<in> set ns" by simp
  with assms(1) have "valid_name (last ns)" by (simp add: list_all_iff)
  with assms(2) show ?thesis by (auto simp: valid_name_def)
qed

lemma valid_butlast: "list_all valid_name ns \<Longrightarrow> list_all valid_name (butlast ns)"
  by (auto simp: list_all_iff dest: in_set_butlastD)

lemma dots_then_namesI:
  "list_all valid_name ns \<Longrightarrow> dots_then_names (replicate k ''..'' @ ns)"
  unfolding dots_then_names_def by blast

lemma clean_step_False_shape:
  assumes "dots_then_names out" and "CHR ''/'' \<notin> set x"
  shows "dots_then_names (clean_step False out x)"
proof -
  from assms(1) obtain k ns where out: "out = replicate k ''..'' @ ns" and ns: "list_all valid_name ns"
    unfolding dots_then_names_def by blast
  consider (skip) "x = [] \<or> x = ''.''" | (up) "x = ''..''" | (name) "valid_name x"
    using assms(2) by (auto simp: valid_name_def)
  then show ?thesis
  proof cases
    case skip
    then show ?thesis using assms(1) by auto
  next
    case up
    show ?thesis
    proof (cases "ns = []")
      case True
      with out have "clean_step False out x = replicate (Suc k) ''..'' @ []"
        using up by (cases k) (simp_all add: clean_step_def replicate_append_same)
      then show ?thesis using dots_then_namesI [of "[]" "Suc k"] by simp
    next
      case False
      with ns have "last out \<noteq> ''..''" unfolding out by (rule last_dots_names)
      with False out up have "clean_step False out x = replicate k ''..'' @ butlast ns"
        by (simp add: clean_step_def butlast_append)
      with dots_then_namesI [OF valid_butlast [OF ns], of k] show ?thesis by simp
    qed
  next
    case name
    then have "clean_step False out x = replicate k ''..'' @ (ns @ [x])"
      by (simp add: clean_step_valid out)
    moreover have "list_all valid_name (ns @ [x])" using ns name by simp
    ultimately show ?thesis using dots_then_namesI [of "ns @ [x]" k] by simp
  qed
qed

lemma clean_step_strip_dots:
  assumes "dots_then_names out" and "CHR ''/'' \<notin> set x"
  shows "clean_step True (strip_dots out) x = strip_dots (clean_step False out x)"
proof -
  from assms(1) obtain k ns where out: "out = replicate k ''..'' @ ns" and ns: "list_all valid_name ns"
    unfolding dots_then_names_def by blast
  have st: "strip_dots out = ns" unfolding out using ns by (rule strip_dots_shape)
  consider (skip) "x = [] \<or> x = ''.''" | (up) "x = ''..''" | (name) "valid_name x"
    using assms(2) by (auto simp: valid_name_def)
  then show ?thesis
  proof cases
    case skip
    then show ?thesis by auto
  next
    case up
    show ?thesis
    proof (cases "ns = []")
      case True
      with out have "clean_step False out x = replicate (Suc k) ''..'' @ []"
        using up by (cases k) (simp_all add: clean_step_def replicate_append_same)
      then have "strip_dots (clean_step False out x) = []"
        using strip_dots_shape [of "[]" "Suc k"] by simp
      moreover have "clean_step True (strip_dots out) x = []"
        using st True up by (simp add: clean_step_def)
      ultimately show ?thesis by simp
    next
      case False
      with ns have l: "last out \<noteq> ''..''" unfolding out by (rule last_dots_names)
      with False out up have "clean_step False out x = replicate k ''..'' @ butlast ns"
        by (simp add: clean_step_def butlast_append)
      then have "strip_dots (clean_step False out x) = butlast ns"
        using strip_dots_shape [OF valid_butlast [OF ns], of k] by simp
      moreover have "last ns \<noteq> ''..''" using l False out by simp
      then have "clean_step True (strip_dots out) x = butlast ns"
        using st False up by (simp add: clean_step_def)
      ultimately show ?thesis by simp
    qed
  next
    case name
    then have "clean_step False out x = replicate k ''..'' @ (ns @ [x])"
      by (simp add: clean_step_valid out)
    moreover have "list_all valid_name (ns @ [x])" using ns name by simp
    ultimately have "strip_dots (clean_step False out x) = ns @ [x]"
      using strip_dots_shape [of "ns @ [x]" k] by simp
    then show ?thesis using st name by (simp add: clean_step_valid)
  qed
qed

lemma foldl_clean_step_strip_dots:
  "dots_then_names out \<Longrightarrow> \<forall>x\<in>set xs. CHR ''/'' \<notin> set x \<Longrightarrow>
     dots_then_names (foldl (clean_step False) out xs)
     \<and> foldl (clean_step True) (strip_dots out) xs = strip_dots (foldl (clean_step False) out xs)"
proof (induction xs arbitrary: out)
  case Nil
  then show ?case by simp
next
  case (Cons x xs)
  from Cons.prems have x: "CHR ''/'' \<notin> set x" and xs: "\<forall>x\<in>set xs. CHR ''/'' \<notin> set x"
    by simp_all
  have sh: "dots_then_names (clean_step False out x)"
    using Cons.prems(1) x by (rule clean_step_False_shape)
  from Cons.IH [OF sh xs] clean_step_strip_dots [OF Cons.prems(1) x]
  show ?case by simp
qed

lemma dots_then_names_Nil: "dots_then_names []"
  using dots_then_namesI [of "[]" 0] by simp

lemma clean_elems_False_shape: "dots_then_names (clean_elems False p)"
  unfolding clean_elems_def
  using foldl_clean_step_strip_dots [OF dots_then_names_Nil, of "split_slash p"]
  by (simp add: split_slash_noslash)

lemma clean_elems_True_strip: "clean_elems True p = strip_dots (clean_elems False p)"
  unfolding clean_elems_def
  using foldl_clean_step_strip_dots [OF dots_then_names_Nil, of "split_slash p"]
  by (simp add: split_slash_noslash strip_dots_def)

lemma foldl_clean_step_True_dots:
  "foldl (clean_step True) [] (replicate k ''..'') = []"
  by (induction k) (simp_all add: clean_step_def)

lemma foldl_clean_step_True_dots_names:
  "list_all valid_name ns \<Longrightarrow> foldl (clean_step True) [] (replicate k ''..'' @ ns) = ns"
  by (simp add: foldl_clean_step_True_dots foldl_clean_step_valid)

lemma valid_noslash: "list_all valid_name ns \<Longrightarrow> \<forall>x\<in>set ns. CHR ''/'' \<notin> set x"
  by (simp add: list_all_iff valid_name_def)

lemma dots_names_noslash:
  assumes "list_all valid_name ns"
  shows "\<forall>x\<in>set (replicate k ''..'' @ ns). CHR ''/'' \<notin> set x"
proof
  fix x
  assume "x \<in> set (replicate k ''..'' @ ns)"
  then have "x = ''..'' \<or> x \<in> set ns"
    by (simp add: set_replicate_conv_if split: if_splits)
  then show "CHR ''/'' \<notin> set x"
  proof
    assume "x = ''..''"
    then show ?thesis by simp
  next
    assume "x \<in> set ns"
    with valid_noslash [OF assms] show ?thesis by blast
  qed
qed

lemma clean_elems_True_join:
  assumes "list_all valid_name ns"
  shows "foldl (clean_step True) [] (split_slash (join_slash ns)) = ns"
proof (cases "ns = []")
  case True
  then show ?thesis by simp
next
  case False
  with assms have "split_slash (join_slash ns) = ns"
    by (simp add: split_join_slash valid_noslash)
  with assms show ?thesis by (simp add: foldl_clean_step_valid)
qed

lemma path_elems_rooted_join:
  "list_all valid_name ns \<Longrightarrow> path_elems (CHR ''/'' # join_slash ns) = ns"
  by (simp add: path_elems_def clean_elems_def clean_elems_True_join)

lemma path_elems_dot: "path_elems ''.'' = []" "path_elems [] = []"
  by (simp_all add: path_elems_def clean_elems_def)

lemma path_elems_Clean: "path_elems (path_Clean s) = path_elems s"
proof (cases "s = []")
  case True
  then show ?thesis by (simp add: path_Clean_def path_elems_dot)
next
  case False
  show ?thesis
  proof (cases "hd s = CHR ''/''")
    case True
    have "list_all valid_name (clean_elems True s)"
      using path_elems_valid [of s] by (simp add: path_elems_def)
    then have "path_elems (CHR ''/'' # join_slash (clean_elems True s)) = clean_elems True s"
      by (rule path_elems_rooted_join)
    with False True show ?thesis by (simp add: path_Clean_def path_elems_def)
  next
    case rel: False
    from clean_elems_False_shape [of s]
    obtain k ns where l: "clean_elems False s = replicate k ''..'' @ ns"
      and ns: "list_all valid_name ns"
      unfolding dots_then_names_def by blast
    have tr: "path_elems s = ns"
      unfolding path_elems_def clean_elems_True_strip l using ns by (rule strip_dots_shape)
    show ?thesis
    proof (cases "clean_elems False s = []")
      case True
      with l have "ns = []" by simp
      with True False rel tr show ?thesis by (simp add: path_Clean_def path_elems_dot)
    next
      case ne: False
      then have sj: "split_slash (join_slash (clean_elems False s)) = clean_elems False s"
        using dots_names_noslash [OF ns, of k] by (simp add: split_join_slash l)
      have "path_elems (join_slash (clean_elems False s)) =
              foldl (clean_step True) [] (split_slash (join_slash (clean_elems False s)))"
        by (simp add: path_elems_def clean_elems_def)
      also have "\<dots> = foldl (clean_step True) [] (clean_elems False s)"
        by (simp only: sj)
      also have "\<dots> = ns"
        unfolding l using ns by (rule foldl_clean_step_True_dots_names)
      finally have "path_elems (join_slash (clean_elems False s)) = ns" .
      with False rel ne tr show ?thesis by (simp add: path_Clean_def)
    qed
  qed
qed

lemma join_slash_eq_Nil: "join_slash xs = [] \<Longrightarrow> xs = [] \<or> xs = [[]]"
  by (induction xs rule: join_slash.induct) auto

lemma path_Clean_nonempty [simp]: "path_Clean s \<noteq> []"
proof -
  have "join_slash (clean_elems False s) \<noteq> []" if "clean_elems False s \<noteq> []"
  proof
    assume "join_slash (clean_elems False s) = []"
    with that have e: "clean_elems False s = [[]]" by (auto dest: join_slash_eq_Nil)
    from clean_elems_False_shape [of s]
    obtain k ns where l: "clean_elems False s = replicate k ''..'' @ ns"
      and ns: "list_all valid_name ns"
      unfolding dots_then_names_def by blast
    from e l ns show False
      by (cases k; cases ns) (auto simp: valid_name_def)
  qed
  then show ?thesis by (auto simp: path_Clean_def)
qed

lemma path_Join_eq_Nil [simp]: "path_Join a b = [] \<longleftrightarrow> a = [] \<and> b = []"
  by (simp add: path_Join_def)

lemma path_elems_Join:
  "path_elems (path_Join a b) = foldl (clean_step True) (path_elems a) (split_slash b)"
proof (cases "a = []")
  case True
  then show ?thesis
    by (cases "b = []") (simp_all add: path_Join_def path_elems_Clean path_elems_dot,
        simp add: path_elems_def clean_elems_def)
next
  case False
  then have "path_elems (path_Join a b) = path_elems (a @ CHR ''/'' # b)"
    by (simp add: path_Join_def path_elems_Clean)
  then show ?thesis
    by (simp add: path_elems_def clean_elems_def split_slash_append)
qed

lemma path_elems_Join_name:
  "valid_name n \<Longrightarrow> path_elems (path_Join a n) = path_elems a @ [n]"
  by (simp add: path_elems_Join split_slash_id valid_name_def clean_step_valid)

lemma path_elems_Join_rel:
  "list_all valid_name (split_slash k) \<Longrightarrow> path_elems (path_Join a k) = path_elems a @ split_slash k"
  by (simp add: path_elems_Join foldl_clean_step_valid)

lemma path_elems_Join_Nil: "path_elems (path_Join a []) = path_elems a"
  by (simp add: path_elems_Join)

section \<open>Paths: joining names, the parent directory\<close>

lemma valid_name_hd: "valid_name x \<Longrightarrow> hd x \<noteq> CHR ''/''"
  by (cases x) (auto simp: valid_name_def)

lemma join_slash_Cons_hd: "x \<noteq> [] \<Longrightarrow> hd (join_slash (x # xs)) = hd x"
  by (cases xs) auto

lemma join_slash_valid_nonempty:
  "list_all valid_name q \<Longrightarrow> q \<noteq> [] \<Longrightarrow> join_slash q \<noteq> []"
  by (cases q rule: join_slash.cases) (auto simp: valid_name_def)

lemma clean_elems_False_valid:
  "list_all valid_name (split_slash s) \<Longrightarrow> clean_elems False s = split_slash s"
  by (simp add: clean_elems_def foldl_clean_step_valid)

lemma path_Clean_rel_valid:
  assumes "list_all valid_name q" and "q \<noteq> []"
  shows "path_Clean (join_slash q) = join_slash q"
proof -
  have sp: "split_slash (join_slash q) = q"
    using assms by (simp add: split_join_slash valid_noslash)
  then have ce: "clean_elems False (join_slash q) = q"
    using assms(1) by (simp add: clean_elems_False_valid)
  obtain x xs where q: "q = x # xs" using assms(2) by (cases q) auto
  with assms(1) have "valid_name x" by simp
  then have "hd (join_slash q) \<noteq> CHR ''/''"
    unfolding q by (simp add: join_slash_Cons_hd valid_name_def valid_name_hd)
  moreover have "join_slash q \<noteq> []"
    using assms by (rule join_slash_valid_nonempty)
  ultimately show ?thesis
    using assms(2) by (simp add: path_Clean_def ce)
qed

lemma path_Join_join_slash:
  assumes "list_all valid_name q" and "valid_name n"
  shows "path_Join (join_slash q) n = join_slash (q @ [n])"
proof (cases "q = []")
  case True
  have "path_Clean (join_slash [n]) = join_slash [n]"
    by (rule path_Clean_rel_valid) (simp_all add: assms(2))
  with True assms(2) show ?thesis
    by (simp add: path_Join_def valid_name_def)
next
  case False
  have ne: "join_slash q \<noteq> []"
    using assms(1) False by (rule join_slash_valid_nonempty)
  have "path_Clean (join_slash (q @ [n])) = join_slash (q @ [n])"
    by (rule path_Clean_rel_valid) (simp_all add: assms)
  with False ne show ?thesis
    by (simp add: path_Join_def join_slash_snoc)
qed

lemma dir_part_noslash: "CHR ''/'' \<notin> set x \<Longrightarrow> dir_part x = []"
  by (auto simp: dir_part_def dropWhile_eq_Nil_conv)

lemma dir_part_append:
  assumes "CHR ''/'' \<notin> set x"
  shows "dir_part (pre @ CHR ''/'' # x) = pre @ [CHR ''/'']"
proof -
  have "dropWhile (\<lambda>c. c \<noteq> CHR ''/'') (rev x @ CHR ''/'' # rev pre) =
          dropWhile (\<lambda>c. c \<noteq> CHR ''/'') (CHR ''/'' # rev pre)"
    by (rule dropWhile_append2) (use assms in auto)
  then show ?thesis by (simp add: dir_part_def)
qed

lemma path_elems_trailing_slash: "path_elems (pre @ [CHR ''/'']) = path_elems pre"
  using split_slash_append [of pre "[]"]
  by (simp add: path_elems_def clean_elems_def)

lemma path_elems_Dir_rooted:
  assumes "list_all valid_name ns"
  shows "path_elems (path_Dir (CHR ''/'' # join_slash ns)) = butlast ns"
proof (cases ns rule: rev_cases)
  case Nil
  have "dir_part ''/'' = ''/''"
    using dir_part_append [of "[]" "[]"] by simp
  then have "path_elems (path_Dir ''/'') = path_elems ''/''"
    by (simp add: path_Dir_def path_elems_Clean)
  also have "\<dots> = []"
    using path_elems_rooted_join [of "[]"] by simp
  finally show ?thesis using Nil by simp
next
  case (snoc ms x)
  with assms have ms: "list_all valid_name ms" and x: "valid_name x" by simp_all
  from x have xs: "CHR ''/'' \<notin> set x" by (simp add: valid_name_def)
  show ?thesis
  proof (cases "ms = []")
    case True
    have "dir_part (CHR ''/'' # x) = ''/''"
      using dir_part_append [OF xs, of "[]"] by simp
    then have "path_elems (path_Dir (CHR ''/'' # x)) = path_elems ''/''"
      by (simp add: path_Dir_def path_elems_Clean)
    also have "\<dots> = []"
      using path_elems_rooted_join [of "[]"] by simp
    finally show ?thesis using True snoc by simp
  next
    case False
    have "dir_part ((CHR ''/'' # join_slash ms) @ CHR ''/'' # x) = (CHR ''/'' # join_slash ms) @ [CHR ''/'']"
      using xs by (rule dir_part_append)
    then have "path_elems (path_Dir (CHR ''/'' # join_slash (ms @ [x]))) =
                 path_elems ((CHR ''/'' # join_slash ms) @ [CHR ''/''])"
      using False by (simp add: path_Dir_def path_elems_Clean join_slash_snoc)
    also have "\<dots> = path_elems (CHR ''/'' # join_slash ms)"
      by (rule path_elems_trailing_slash)
    also have "\<dots> = ms"
      using ms by (rule path_elems_rooted_join)
    finally show ?thesis using snoc by simp
  qed
qed

lemma path_elems_Dir_dot: "path_elems (path_Dir ''.'') = []"
proof -
  have "dir_part ''.'' = []" by (rule dir_part_noslash) simp
  then show ?thesis by (simp add: path_Dir_def path_elems_Clean path_elems_dot)
qed

lemma path_elems_Dir_Nil: "path_elems (path_Dir []) = []"
  by (simp add: path_Dir_def dir_part_def path_elems_Clean path_elems_dot)

lemma path_elems_join_dots_names:
  assumes "list_all valid_name ns"
  shows "path_elems (join_slash (replicate k ''..'' @ ns)) = ns"
proof (cases "replicate k ''..'' @ ns = []")
  case True
  then show ?thesis by (simp add: path_elems_dot)
next
  case False
  then have "split_slash (join_slash (replicate k ''..'' @ ns)) = replicate k ''..'' @ ns"
    using dots_names_noslash [OF assms, of k] by (simp add: split_join_slash)
  then have "path_elems (join_slash (replicate k ''..'' @ ns)) =
               foldl (clean_step True) [] (replicate k ''..'' @ ns)"
    by (simp add: path_elems_def clean_elems_def)
  also have "\<dots> = ns"
    using assms by (rule foldl_clean_step_True_dots_names)
  finally show ?thesis .
qed

lemma butlast_dots_names:
  assumes "list_all valid_name ns" and "replicate k ''..'' @ ns = ms @ [x]"
  shows "\<exists>k'. ms = replicate k' ''..'' @ butlast ns \<and> CHR ''/'' \<notin> set x"
proof (cases "ns = []")
  case True
  with assms(2) have k: "replicate k ''..'' = ms @ [x]" by simp
  then obtain j where j: "k = Suc j" by (cases k) auto
  from k have "replicate j ''..'' @ [''..''] = ms @ [x]"
    unfolding j by (simp add: replicate_append_same)
  then have "ms = replicate j ''..''" and "x = ''..''" by auto
  with True show ?thesis by auto
next
  case False
  then have "replicate k ''..'' @ ns = (replicate k ''..'' @ butlast ns) @ [last ns]"
    by simp
  with assms(2) have "ms = replicate k ''..'' @ butlast ns" and "x = last ns"
    by (metis append1_eq_conv)+
  moreover have "valid_name (last ns)"
    using assms(1) False by (simp add: list_all_iff)
  ultimately show ?thesis by (auto simp: valid_name_def)
qed

lemma path_elems_Dir_rel:
  assumes "list_all valid_name ns" and "replicate k ''..'' @ ns \<noteq> []"
  shows "path_elems (path_Dir (join_slash (replicate k ''..'' @ ns))) = butlast ns"
proof -
  obtain ms x where l: "replicate k ''..'' @ ns = ms @ [x]"
    using assms(2) by (cases "replicate k ''..'' @ ns" rule: rev_cases) auto
  from butlast_dots_names [OF assms(1) l]
  obtain k' where ms: "ms = replicate k' ''..'' @ butlast ns" and xs: "CHR ''/'' \<notin> set x"
    by blast
  have vb: "list_all valid_name (butlast ns)" using assms(1) by (rule valid_butlast)
  show ?thesis
  proof (cases "ms = []")
    case True
    with ms have b: "butlast ns = []" by simp
    have "dir_part x = []" using xs by (rule dir_part_noslash)
    then have "path_elems (path_Dir x) = []"
      by (simp add: path_Dir_def path_elems_Clean path_elems_dot)
    with True b show ?thesis by (simp add: l)
  next
    case False
    have "dir_part (join_slash ms @ CHR ''/'' # x) = join_slash ms @ [CHR ''/'']"
      using xs by (rule dir_part_append)
    then have "path_elems (path_Dir (join_slash (ms @ [x]))) = path_elems (join_slash ms @ [CHR ''/''])"
      using False by (simp add: path_Dir_def path_elems_Clean join_slash_snoc)
    also have "\<dots> = path_elems (join_slash ms)"
      by (rule path_elems_trailing_slash)
    also have "\<dots> = butlast ns"
      unfolding ms using vb by (rule path_elems_join_dots_names)
    finally show ?thesis by (simp add: l)
  qed
qed

lemma path_elems_Dir_Clean:
  "path_elems (path_Dir (path_Clean s)) = butlast (path_elems s)"
proof (cases "s = []")
  case True
  then show ?thesis by (simp add: path_Clean_def path_elems_Dir_dot path_elems_dot)
next
  case False
  show ?thesis
  proof (cases "hd s = CHR ''/''")
    case True
    have v: "list_all valid_name (clean_elems True s)"
      using path_elems_valid [of s] by (simp add: path_elems_def)
    from False True have "path_Clean s = CHR ''/'' # join_slash (clean_elems True s)"
      by (simp add: path_Clean_def)
    then show ?thesis
      using path_elems_Dir_rooted [OF v] by (simp add: path_elems_def)
  next
    case rel: False
    from clean_elems_False_shape [of s]
    obtain k ns where l: "clean_elems False s = replicate k ''..'' @ ns"
      and ns: "list_all valid_name ns"
      unfolding dots_then_names_def by blast
    have tr: "path_elems s = ns"
      unfolding path_elems_def clean_elems_True_strip l using ns by (rule strip_dots_shape)
    show ?thesis
    proof (cases "clean_elems False s = []")
      case True
      with l have "ns = []" by simp
      moreover from True False rel have "path_Clean s = ''.''" by (simp add: path_Clean_def)
      ultimately show ?thesis using tr by (simp add: path_elems_Dir_dot)
    next
      case ne: False
      with False rel have "path_Clean s = join_slash (replicate k ''..'' @ ns)"
        by (simp add: path_Clean_def l)
      moreover from ne l have "replicate k ''..'' @ ns \<noteq> []" by simp
      ultimately show ?thesis
        using path_elems_Dir_rel [OF ns, of k] tr by simp
    qed
  qed
qed

lemma path_elems_Dir_Join:
  "path_elems (path_Dir (path_Join a b)) = butlast (path_elems (path_Join a b))"
proof (cases "a = [] \<and> b = []")
  case True
  then show ?thesis by (simp add: path_Join_def path_elems_Dir_Nil path_elems_dot)
next
  case False
  then have "path_Join a b = path_Clean (if a = [] then b else a @ CHR ''/'' # b)"
    by (simp add: path_Join_def)
  then obtain s where "path_Join a b = path_Clean s" ..
  then show ?thesis
    by (simp add: path_elems_Dir_Clean path_elems_Clean)
qed

lemma path_Dir_nonempty [simp]: "path_Dir p \<noteq> []"
  by (simp add: path_Dir_def)

section \<open>Walking and grafting\<close>

lemma walk_empty_Dir: "walk (Dir []) ss \<noteq> Inl ENOTDIR"
  by (cases ss) simp_all

lemma walk_child_not_ENOTDIR:
  assumes "walk (Dir es) (s # ss) \<noteq> Inl ENOTDIR"
  shows "walk (case map_of es s of None \<Rightarrow> Dir [] | Some t \<Rightarrow> t) ss \<noteq> Inl ENOTDIR"
  using assms by (cases "map_of es s") (simp_all add: walk_empty_Dir)

lemma walk_graft_below:
  "walk t p \<noteq> Inl ENOTDIR \<Longrightarrow> walk (graft t p new) (p @ r) = walk new r"
proof (induction p arbitrary: t)
  case Nil
  show ?case by simp
next
  case (Cons s ss)
  show ?case
  proof (cases t)
    case (File c)
    with Cons.prems show ?thesis by simp
  next
    case (Dir es)
    with Cons.prems have "walk (case map_of es s of None \<Rightarrow> Dir [] | Some t \<Rightarrow> t) ss \<noteq> Inl ENOTDIR"
      by (simp add: walk_child_not_ENOTDIR)
    from Cons.IH [OF this] Dir show ?thesis
      by (simp add: AList.update_conv')
  qed
qed

lemma walk_graft_same: "walk t p \<noteq> Inl ENOTDIR \<Longrightarrow> walk (graft t p new) p = Inr new"
  using walk_graft_below [of t p new "[]"] by simp

lemma walk_graft_apart:
  "walk t p \<noteq> Inl ENOTDIR \<Longrightarrow> \<not> prefix p q \<Longrightarrow> \<not> prefix q p \<Longrightarrow>
     walk (graft t p new) q = walk t q"
proof (induction p arbitrary: t q)
  case Nil
  then show ?case by simp
next
  case (Cons s ss)
  from Cons.prems(3) obtain s' qs where q: "q = s' # qs" by (cases q) auto
  show ?case
  proof (cases t)
    case (File c)
    with Cons.prems show ?thesis by simp
  next
    case (Dir es)
    let ?child = "case map_of es s of None \<Rightarrow> Dir [] | Some t \<Rightarrow> t"
    from Cons.prems(1) Dir have ch: "walk ?child ss \<noteq> Inl ENOTDIR"
      by (simp add: walk_child_not_ENOTDIR)
    show ?thesis
    proof (cases "s' = s")
      case True
      with Cons.prems(2,3) q have np: "\<not> prefix ss qs" "\<not> prefix qs ss" by simp_all
      from np(2) have qne: "qs \<noteq> []" by auto
      have "walk (graft ?child ss new) qs = walk ?child qs"
        using ch np by (rule Cons.IH)
      moreover have "walk ?child qs = walk t q"
        using qne Dir q True by (cases "map_of es s"; cases qs) simp_all
      ultimately show ?thesis using Dir q True by (simp add: AList.update_conv')
    next
      case False
      with Dir q show ?thesis by (simp add: AList.update_conv')
    qed
  qed
qed

lemma walk_graft_above:
  "walk t p \<noteq> Inl ENOTDIR \<Longrightarrow> strict_prefix q p \<Longrightarrow> \<exists>es. walk (graft t p new) q = Inr (Dir es)"
proof (induction p arbitrary: t q)
  case Nil
  then show ?case by simp
next
  case (Cons s ss)
  show ?case
  proof (cases t)
    case (File c)
    with Cons.prems show ?thesis by simp
  next
    case (Dir es)
    let ?child = "case map_of es s of None \<Rightarrow> Dir [] | Some t \<Rightarrow> t"
    from Cons.prems(1) Dir have ch: "walk ?child ss \<noteq> Inl ENOTDIR"
      by (simp add: walk_child_not_ENOTDIR)
    show ?thesis
    proof (cases q)
      case Nil
      with Dir show ?thesis by simp
    next
      case (Cons s' qs)
      with Cons.prems(2) have s': "s' = s" and sp: "strict_prefix qs ss"
        by (simp_all add: strict_prefix_def)
      from Cons.IH [OF ch sp] obtain es' where "walk (graft ?child ss new) qs = Inr (Dir es')"
        by blast
      with Dir Cons s' show ?thesis by (simp add: AList.update_conv')
    qed
  qed
qed


lemma walk_prefix_Dir:
  "walk t (q @ a # r) = Inr x \<Longrightarrow> \<exists>es. walk t q = Inr (Dir es)"
proof (induction q arbitrary: t)
  case Nil
  then show ?case by (cases t) simp_all
next
  case (Cons s ss)
  then show ?case by (cases t) (auto split: option.splits)
qed

lemma walk_below_File:
  "walk t q = Inr (File c) \<Longrightarrow> walk t (q @ a # r) = Inl ENOTDIR"
proof (induction q arbitrary: t)
  case Nil
  then show ?case by simp
next
  case (Cons s ss)
  then show ?case by (cases t) (auto split: option.splits)
qed

section \<open>The operations of the file system\<close>

lemma dir_at_iff: "dir_at root q \<longleftrightarrow> (\<exists>es. walk root q = Inr (Dir es))"
  by (auto simp: dir_at_def split: sum.splits node.splits)

lemma walk_error_cases: "walk t p = Inl e \<Longrightarrow> e = ENOTDIR \<or> e = ErrNotExist"
proof (induction p arbitrary: t)
  case Nil
  then show ?case by simp
next
  case (Cons s ss)
  then show ?case by (cases t) (auto split: option.splits)
qed

lemma graft_keeps_file:
  assumes "walk t p \<noteq> Inl ENOTDIR" and "\<not> dir_at t p" and "q \<noteq> p"
    and "walk t q = Inr (File c)"
  shows "walk (graft t p new) q = Inr (File c)"
proof -
  consider (below) "strict_prefix p q" | (above) "strict_prefix q p"
    | (apart) "\<not> prefix p q" "\<not> prefix q p"
    using assms(3) by (auto simp: strict_prefix_def)
  then show ?thesis
  proof cases
    case below
    then obtain a r where "q = p @ a # r"
      by (auto simp: strict_prefix_def prefix_def) (metis list.exhaust)
    with assms(4) have "\<exists>es. walk t p = Inr (Dir es)"
      by (auto dest: walk_prefix_Dir)
    with assms(2) show ?thesis by (simp add: dir_at_iff)
  next
    case above
    then obtain a r where "p = q @ a # r"
      by (auto simp: strict_prefix_def prefix_def) (metis list.exhaust)
    with assms(4) have "walk t p = Inl ENOTDIR"
      by (simp add: walk_below_File)
    with assms(1) show ?thesis by simp
  next
    case apart
    with assms(1,4) show ?thesis by (simp add: walk_graft_apart)
  qed
qed

lemma graft_keeps_dir:
  assumes "walk t p \<noteq> Inl ENOTDIR" and "\<not> dir_at t p" and "dir_at t q"
  shows "dir_at (graft t p new) q"
proof -
  from assms(2,3) have "q \<noteq> p" by auto
  then consider (below) "strict_prefix p q" | (above) "strict_prefix q p"
    | (apart) "\<not> prefix p q" "\<not> prefix q p"
    by (auto simp: strict_prefix_def)
  then show ?thesis
  proof cases
    case below
    then obtain a r where "q = p @ a # r"
      by (auto simp: strict_prefix_def prefix_def) (metis list.exhaust)
    with assms(3) have "\<exists>es. walk t p = Inr (Dir es)"
      by (auto simp: dir_at_iff dest: walk_prefix_Dir)
    with assms(2) show ?thesis by (simp add: dir_at_iff)
  next
    case above
    with assms(1) show ?thesis
      by (simp add: dir_at_iff walk_graft_above)
  next
    case apart
    with assms(1,3) show ?thesis by (simp add: dir_at_def walk_graft_apart)
  qed
qed

lemma graft_file_origin:
  assumes "walk t p \<noteq> Inl ENOTDIR" and "q \<noteq> p"
    and "walk (graft t p (File d)) q = Inr (File c)"
  shows "walk t q = Inr (File c)"
proof -
  consider (below) "strict_prefix p q" | (above) "strict_prefix q p"
    | (apart) "\<not> prefix p q" "\<not> prefix q p"
    using assms(2) by (auto simp: strict_prefix_def)
  then show ?thesis
  proof cases
    case below
    then obtain a r where "q = p @ a # r"
      by (auto simp: strict_prefix_def prefix_def) (metis list.exhaust)
    with assms(1,3) show ?thesis by (simp add: walk_graft_below)
  next
    case above
    with assms(1) obtain es where "walk (graft t p (File d)) q = Inr (Dir es)"
      by (auto dest: walk_graft_above)
    with assms(3) show ?thesis by simp
  next
    case apart
    with assms(1,3) show ?thesis by (simp add: walk_graft_apart)
  qed
qed

lemma graft_dir_file_origin:
  assumes "walk t p \<noteq> Inl ENOTDIR"
    and "walk (graft t p (Dir [])) q = Inr (File c)"
  shows "walk t q = Inr (File c)"
proof -
  have "q \<noteq> p" using assms by (auto simp: walk_graft_same)
  then consider (below) "strict_prefix p q" | (above) "strict_prefix q p"
    | (apart) "\<not> prefix p q" "\<not> prefix q p"
    by (auto simp: strict_prefix_def)
  then show ?thesis
  proof cases
    case below
    then obtain a r where "q = p @ a # r"
      by (auto simp: strict_prefix_def prefix_def) (metis list.exhaust)
    with assms show ?thesis by (simp add: walk_graft_below)
  next
    case above
    with assms(1) obtain es where "walk (graft t p (Dir [])) q = Inr (Dir es)"
      by (auto dest: walk_graft_above)
    with assms(2) show ?thesis by simp
  next
    case apart
    with assms show ?thesis by (simp add: walk_graft_apart)
  qed
qed

lemma os_lookup_Inr: "os_lookup root name = Inr t \<longleftrightarrow> name \<noteq> [] \<and> walk root (path_elems name) = Inr t"
  by (simp add: os_lookup_def)

lemma os_lookup_error_cases: "os_lookup root name = Inl e \<Longrightarrow> e = ENOTDIR \<or> e = ErrNotExist"
  by (auto simp: os_lookup_def dest: walk_error_cases split: if_splits)

lemma os_WriteFile_ok:
  assumes "os_WriteFile name data root = (None, root')"
  shows "name \<noteq> []"
    and "root' = graft root (path_elems name) (File (bytes_data data))"
    and "walk root (path_elems name) \<noteq> Inl ENOTDIR"
    and "\<not> dir_at root (path_elems name)"
  using assms
  by (auto simp: os_WriteFile_def os_lookup_def dir_at_def
      split: if_splits sum.splits node.splits)

lemma os_WriteFile_err: "os_WriteFile name data root = (Some e, root') \<Longrightarrow> root' = root"
  by (auto simp: os_WriteFile_def split: if_splits sum.splits node.splits)

lemma os_WriteFile_not_ErrExist: "os_WriteFile name data root = (Some e, root') \<Longrightarrow> e \<noteq> ErrExist"
  by (auto simp: os_WriteFile_def dest: os_lookup_error_cases
      split: if_splits sum.splits node.splits)

lemma os_WriteFile_over_File:
  "os_lookup root name = Inr (File c) \<Longrightarrow>
     os_WriteFile name data root = (None, graft root (path_elems name) (File (bytes_data data)))"
  by (simp add: os_WriteFile_def)

lemma os_WriteFile_over_Dir:
  "os_lookup root name = Inr (Dir es) \<Longrightarrow> os_WriteFile name data root = (Some EISDIR, root)"
  by (simp add: os_WriteFile_def)

lemma os_WriteFile_lookup:
  assumes "os_WriteFile name data root = (None, root')"
  shows "os_lookup root' name = Inr (File (bytes_data data))"
  using os_WriteFile_ok [OF assms] by (simp add: os_lookup_Inr walk_graft_same)

lemma os_Mkdir_ok:
  assumes "os_Mkdir name root = (None, root')"
  shows "name \<noteq> []"
    and "root' = graft root (path_elems name) (Dir [])"
    and "walk root (path_elems name) = Inl ErrNotExist"
  using assms
  by (auto simp: os_Mkdir_def os_lookup_def split: if_splits sum.splits)

lemma os_Mkdir_err: "os_Mkdir name root = (Some e, root') \<Longrightarrow> root' = root"
  by (auto simp: os_Mkdir_def split: if_splits sum.splits)

lemma os_Mkdir_ErrExist:
  "os_Mkdir name root = (Some ErrExist, root') \<Longrightarrow> \<exists>t. os_lookup root name = Inr t"
  by (auto simp: os_Mkdir_def dest: os_lookup_error_cases split: if_splits sum.splits)

lemma os_Mkdir_existing: "os_lookup root name = Inr t \<Longrightarrow> os_Mkdir name root = (Some ErrExist, root)"
  by (simp add: os_Mkdir_def)

lemma os_Mkdir_lookup:
  assumes "os_Mkdir name root = (None, root')"
  shows "os_lookup root' name = Inr (Dir [])"
  using os_Mkdir_ok [OF assms] by (simp add: os_lookup_Inr walk_graft_same)

lemma os_MkdirAll_ok:
  assumes "os_MkdirAll name root = (None, root')"
  shows "name \<noteq> []"
    and "(dir_at root (path_elems name) \<and> root' = root)
         \<or> (walk root (path_elems name) = Inl ErrNotExist \<and> root' = graft root (path_elems name) (Dir []))"
  using assms
  by (auto simp: os_MkdirAll_def os_lookup_def dir_at_def split: if_splits sum.splits node.splits)

lemma os_MkdirAll_err: "os_MkdirAll name root = (Some e, root') \<Longrightarrow> root' = root"
  by (auto simp: os_MkdirAll_def split: if_splits sum.splits node.splits)

lemma os_MkdirAll_existing:
  "os_lookup root name = Inr (Dir es) \<Longrightarrow> os_MkdirAll name root = (None, root)"
  by (simp add: os_MkdirAll_def)

lemma os_MkdirAll_lookup:
  assumes "os_MkdirAll name root = (None, root')"
  shows "\<exists>es. os_lookup root' name = Inr (Dir es)"
  using os_MkdirAll_ok [OF assms]
  by (auto simp: os_lookup_Inr walk_graft_same dir_at_iff)

lemma keeps_dirs_refl [simp]: "keeps_dirs root root"
  by (simp add: keeps_dirs_def)

lemma keeps_files_refl [simp]: "keeps_files root root"
  by (simp add: keeps_files_def)

lemma keeps_dirs_trans: "keeps_dirs a b \<Longrightarrow> keeps_dirs b c \<Longrightarrow> keeps_dirs a c"
  by (simp add: keeps_dirs_def)

lemma keeps_files_trans: "keeps_files a b \<Longrightarrow> keeps_files b c \<Longrightarrow> keeps_files a c"
  by (simp add: keeps_files_def)

lemma os_WriteFile_keeps_dirs:
  assumes "os_WriteFile name data root = (None, root')"
  shows "keeps_dirs root root'"
  using os_WriteFile_ok [OF assms] by (simp add: keeps_dirs_def graft_keeps_dir)

lemma os_WriteFile_keeps_other_files:
  assumes "os_WriteFile name data root = (None, root')"
    and "q \<noteq> path_elems name" and "walk root q = Inr (File c)"
  shows "walk root' q = Inr (File c)"
  using os_WriteFile_ok [OF assms(1)] assms(2,3) by (simp add: graft_keeps_file)

lemma os_WriteFile_file_origin:
  assumes "os_WriteFile name data root = (None, root')"
    and "q \<noteq> path_elems name" and "walk root' q = Inr (File c)"
  shows "walk root q = Inr (File c)"
  using os_WriteFile_ok [OF assms(1)] assms(2,3) by (auto dest: graft_file_origin)

lemma not_ENOTDIR: "walk t p = Inl ErrNotExist \<Longrightarrow> walk t p \<noteq> Inl ENOTDIR"
  by simp

lemma not_dir_at: "walk t p = Inl ErrNotExist \<Longrightarrow> \<not> dir_at t p"
  by (simp add: dir_at_def)

lemma file_not_created: "walk t p = Inl ErrNotExist \<Longrightarrow> walk t q = Inr (File c) \<Longrightarrow> q \<noteq> p"
  by auto

lemma os_Mkdir_keeps:
  assumes "os_Mkdir name root = (None, root')"
  shows "keeps_dirs root root'" and "keeps_files root root'"
proof -
  note ok = os_Mkdir_ok [OF assms]
  show "keeps_dirs root root'"
    using ok by (simp add: keeps_dirs_def graft_keeps_dir not_dir_at)
  show "keeps_files root root'"
    unfolding keeps_files_def ok(2)
    using ok(3) by (auto intro!: graft_keeps_file simp: not_dir_at)
qed


lemma os_MkdirAll_file_origin:
  assumes "os_MkdirAll name root = (None, root')" and "walk root' q = Inr (File c)"
  shows "walk root q = Inr (File c)"
proof -
  from os_MkdirAll_ok(2) [OF assms(1)]
  consider (same) "root' = root"
    | (new) "walk root (path_elems name) = Inl ErrNotExist" "root' = graft root (path_elems name) (Dir [])"
    by blast
  then show ?thesis
  proof cases
    case same
    with assms(2) show ?thesis by simp
  next
    case new
    from new(1) have "walk root (path_elems name) \<noteq> Inl ENOTDIR" by simp
    then show ?thesis
      using assms(2) unfolding new(2) by (rule graft_dir_file_origin)
  qed
qed

lemma isWriteErrOk_None [simp]: "isWriteErrOk None name w root = True"
  by (simp add: isWriteErrOk_def os_IsExist_def)

lemma isWriteErrOk_other: "e \<noteq> ErrExist \<Longrightarrow> isWriteErrOk (Some e) name w root = False"
  by (simp add: isWriteErrOk_def os_IsExist_def)

lemma isWriteErrOk_ErrExist:
  "isWriteErrOk (Some ErrExist) name w root =
     (case os_lookup root name of Inr t \<Rightarrow> is_Dir t = w | Inl e \<Rightarrow> False)"
  by (simp add: isWriteErrOk_def os_IsExist_def os_Stat_def split: sum.splits)

section \<open>Dirs.Write: collisions\<close>

lemma Dirs_Write_loop_append:
  "Dirs_Write_loop pre dir root0 = (None, root) \<Longrightarrow>
   Dirs_Write_loop (pre @ rest) dir root0 = Dirs_Write_loop rest dir root"
proof (induction pre arbitrary: root0)
  case Nil
  then show ?case by simp
next
  case (Cons e pre)
  obtain n st where e: "e = (n, st)" by (cases e)
  let ?name = "path_Join dir n"
  show ?case
  proof (cases "st = DNil")
    case True
    obtain err root1 where w: "writeEmptyFile ?name root0 = (err, root1)"
      by (cases "writeEmptyFile ?name root0")
    show ?thesis
    proof (cases "isWriteErrOk err ?name False root1")
      case False
      with Cons.prems e True w show ?thesis by (auto simp: Let_def)
    next
      case ok: True
      with Cons.prems e True w have "Dirs_Write_loop pre dir root1 = (None, root)"
        by (simp add: Let_def)
      from Cons.IH [OF this] e True w ok show ?thesis by (simp add: Let_def)
    qed
  next
    case False
    obtain err root1 where w: "os_Mkdir ?name root0 = (err, root1)"
      by (cases "os_Mkdir ?name root0")
    show ?thesis
    proof (cases "isWriteErrOk err ?name True root1")
      case nok: False
      with Cons.prems e False w show ?thesis by (auto simp: Let_def)
    next
      case ok: True
      obtain err2 root2 where n: "Dirs_Write st ?name root1 = (err2, root2)"
        by (cases "Dirs_Write st ?name root1")
      show ?thesis
      proof (cases err2)
        case None
        with Cons.prems e False w ok n have "Dirs_Write_loop pre dir root2 = (None, root)"
          by (simp add: Let_def)
        from Cons.IH [OF this] e False w ok n None show ?thesis by (simp add: Let_def)
      next
        case (Some x)
        with Cons.prems e False w ok n show ?thesis by (simp add: Let_def)
      qed
    qed
  qed
qed

lemma Files_Write_append:
  "Files_Write pre dir root0 = (None, root) \<Longrightarrow>
   Files_Write (pre @ rest) dir root0 = Files_Write rest dir root"
proof (induction pre arbitrary: root0)
  case Nil
  then show ?case by simp
next
  case (Cons e pre)
  obtain n data where e: "e = (n, data)" by (cases e)
  let ?p = "path_Join dir n"
  obtain err root1 where m: "os_MkdirAll (path_Dir ?p) root0 = (err, root1)"
    by (cases "os_MkdirAll (path_Dir ?p) root0")
  show ?case
  proof (cases err)
    case (Some x)
    with Cons.prems e m show ?thesis by (simp add: Let_def)
  next
    case None
    obtain err2 root2 where w: "os_WriteFile ?p data root1 = (err2, root2)"
      by (cases "os_WriteFile ?p data root1")
    show ?thesis
    proof (cases err2)
      case (Some x)
      with Cons.prems e m None w show ?thesis by (simp add: Let_def)
    next
      case n2: None
      with Cons.prems e m None w have "Files_Write pre dir root2 = (None, root)"
        by (simp add: Let_def)
      from Cons.IH [OF this] e m None w n2 show ?thesis by (simp add: Let_def)
    qed
  qed
qed

lemma walk_butlast_dir:
  assumes "walk root q = Inr t" and "q \<noteq> []"
  shows "dir_at root (butlast q)"
proof -
  from assms(2) have "q = butlast q @ last q # []" by simp
  with assms(1) have "walk root (butlast q @ last q # []) = Inr t" by simp
  then show ?thesis unfolding dir_at_iff by (rule walk_prefix_Dir)
qed

lemma walk_snoc:
  "walk t q = Inr (Dir es) \<Longrightarrow>
     walk t (q @ [n]) = (case map_of es n of None \<Rightarrow> Inl ErrNotExist | Some c \<Rightarrow> Inr c)"
proof (induction q arbitrary: t)
  case Nil
  then show ?case by (simp split: option.splits)
next
  case (Cons s ss)
  then show ?case by (cases t) (auto split: option.splits)
qed

lemma parent_exists_Dir:
  assumes "os_lookup root p = Inr t" and "is_Dir root \<or> is_Dir t"
    and "p = path_Join a b"
  shows "\<exists>es. os_lookup root (path_Dir p) = Inr (Dir es)"
proof -
  from assms(1) have w: "walk root (path_elems p) = Inr t" by (simp add: os_lookup_Inr)
  have el: "path_elems (path_Dir p) = butlast (path_elems p)"
    unfolding assms(3) by (rule path_elems_Dir_Join)
  show ?thesis
  proof (cases "path_elems p = []")
    case True
    with w have "t = root" by simp
    with assms(2) obtain es where "root = Dir es" by (cases root) auto
    with True el show ?thesis by (simp add: os_lookup_Inr)
  next
    case False
    with w have "dir_at root (butlast (path_elems p))" by (rule walk_butlast_dir)
    with el show ?thesis by (simp add: os_lookup_Inr dir_at_iff)
  qed
qed

lemma Dirs_Write_entry_file_over_File:
  assumes "os_lookup root (path_Join dir n) = Inr (File c)"
  shows "fst (writeEmptyFile (path_Join dir n) root) = None"
    and "Dirs_Write_loop ((n, DNil) # rest) dir root =
           Dirs_Write_loop rest dir (snd (writeEmptyFile (path_Join dir n) root))"
    and "os_lookup (snd (writeEmptyFile (path_Join dir n) root)) (path_Join dir n) = Inr (File [])"
proof -
  let ?name = "path_Join dir n"
  let ?root1 = "graft root (path_elems ?name) (File [])"
  have w: "writeEmptyFile ?name root = (None, ?root1)"
    using os_WriteFile_over_File [OF assms, of "Some []"]
    by (simp add: writeEmptyFile_def bytes_data_def)
  then show "fst (writeEmptyFile ?name root) = None" by simp
  from w show "Dirs_Write_loop ((n, DNil) # rest) dir root =
           Dirs_Write_loop rest dir (snd (writeEmptyFile ?name root))"
    by (simp add: Let_def)
  from w have "os_WriteFile ?name (Some []) root = (None, ?root1)"
    by (simp add: writeEmptyFile_def)
  from os_WriteFile_lookup [OF this] w
  show "os_lookup (snd (writeEmptyFile ?name root)) ?name = Inr (File [])"
    by (simp add: bytes_data_def)
qed

lemma Dirs_Write_entry_file_over_Dir:
  assumes "os_lookup root (path_Join dir n) = Inr (Dir es)"
  shows "Dirs_Write_loop ((n, DNil) # rest) dir root = (Some EISDIR, root)"
  using os_WriteFile_over_Dir [OF assms, of "Some []"]
  by (simp add: Let_def writeEmptyFile_def isWriteErrOk_other)

lemma Dirs_Write_entry_dir_over_Dir:
  assumes "os_lookup root (path_Join dir n) = Inr (Dir es)" and "st \<noteq> DNil"
  shows "Dirs_Write_loop ((n, st) # rest) dir root =
           (case Dirs_Write st (path_Join dir n) root of
              (err, root2) \<Rightarrow> if err \<noteq> None then (err, root2) else Dirs_Write_loop rest dir root2)"
  using os_Mkdir_existing [OF assms(1)] assms
  by (simp add: Let_def isWriteErrOk_ErrExist)

lemma Dirs_Write_entry_dir_over_File:
  assumes "os_lookup root (path_Join dir n) = Inr (File c)" and "st \<noteq> DNil"
  shows "Dirs_Write_loop ((n, st) # rest) dir root = (Some ErrExist, root)"
  using os_Mkdir_existing [OF assms(1)] assms
  by (simp add: Let_def isWriteErrOk_ErrExist)

text \<open>
  Claim C2. Let the entries \<open>pre\<close> of a snapshot be written without error,
  leaving the disk \<open>root\<close>, and let \<open>n\<close> be the next entry, with target
  \<open>path.Join(dir, n)\<close>.
  \<^item> A file marker over an existing plain file: the write of the entry returns no
    error and \<open>Write\<close> goes on with the rest.
  \<^item> A nested snapshot over an existing directory: the creation is accepted, the
    disk is unchanged by it, and \<open>Write\<close> goes on with the nested snapshot and
    then with the rest.
  \<^item> A file marker over an existing directory: \<open>Write\<close> returns the error of
    \<open>os.WriteFile\<close> (is a directory).
  \<^item> A nested snapshot over an existing plain file: \<open>Write\<close> returns the error
    of \<open>os.Mkdir\<close> (file exists).
\<close>

theorem dirs_write_collision_policy:
  "(Dirs_Write_loop pre dir root0 = (None, root)
      \<and> os_lookup root (path_Join dir n) = Inr (File c)
    \<longrightarrow> fst (writeEmptyFile (path_Join dir n) root) = None
      \<and> Dirs_Write (Dirs (pre @ (n, DNil) # rest)) dir root0 =
          Dirs_Write_loop rest dir (snd (writeEmptyFile (path_Join dir n) root)))
   \<and> (Dirs_Write_loop pre dir root0 = (None, root)
      \<and> os_lookup root (path_Join dir n) = Inr (Dir es) \<and> st \<noteq> DNil
    \<longrightarrow> Dirs_Write (Dirs (pre @ (n, st) # rest)) dir root0 =
          (case Dirs_Write st (path_Join dir n) root of
             (err, root2) \<Rightarrow> if err \<noteq> None then (err, root2) else Dirs_Write_loop rest dir root2))
   \<and> (Dirs_Write_loop pre dir root0 = (None, root)
      \<and> os_lookup root (path_Join dir n) = Inr (Dir es)
    \<longrightarrow> Dirs_Write (Dirs (pre @ (n, DNil) # rest)) dir root0 = (Some EISDIR, root))
   \<and> (Dirs_Write_loop pre dir root0 = (None, root)
      \<and> os_lookup root (path_Join dir n) = Inr (File c) \<and> st \<noteq> DNil
    \<longrightarrow> Dirs_Write (Dirs (pre @ (n, st) # rest)) dir root0 = (Some ErrExist, root))"
proof (intro conjI impI)
  assume h: "Dirs_Write_loop pre dir root0 = (None, root)
      \<and> os_lookup root (path_Join dir n) = Inr (File c)"
  then have l: "os_lookup root (path_Join dir n) = Inr (File c)" by simp
  show "fst (writeEmptyFile (path_Join dir n) root) = None"
    using l by (rule Dirs_Write_entry_file_over_File)
  show "Dirs_Write (Dirs (pre @ (n, DNil) # rest)) dir root0 =
          Dirs_Write_loop rest dir (snd (writeEmptyFile (path_Join dir n) root))"
    using h Dirs_Write_entry_file_over_File(2) [OF l, of rest]
    by (simp add: Dirs_Write_loop_append)
next
  assume h: "Dirs_Write_loop pre dir root0 = (None, root)
      \<and> os_lookup root (path_Join dir n) = Inr (Dir es) \<and> st \<noteq> DNil"
  then have "os_lookup root (path_Join dir n) = Inr (Dir es)" and "st \<noteq> DNil" by simp_all
  from Dirs_Write_entry_dir_over_Dir [OF this, of rest] h
  show "Dirs_Write (Dirs (pre @ (n, st) # rest)) dir root0 =
          (case Dirs_Write st (path_Join dir n) root of
             (err, root2) \<Rightarrow> if err \<noteq> None then (err, root2) else Dirs_Write_loop rest dir root2)"
    by (simp add: Dirs_Write_loop_append)
next
  assume h: "Dirs_Write_loop pre dir root0 = (None, root)
      \<and> os_lookup root (path_Join dir n) = Inr (Dir es)"
  then have "os_lookup root (path_Join dir n) = Inr (Dir es)" by simp
  from Dirs_Write_entry_file_over_Dir [OF this, of rest] h
  show "Dirs_Write (Dirs (pre @ (n, DNil) # rest)) dir root0 = (Some EISDIR, root)"
    by (simp add: Dirs_Write_loop_append)
next
  assume h: "Dirs_Write_loop pre dir root0 = (None, root)
      \<and> os_lookup root (path_Join dir n) = Inr (File c) \<and> st \<noteq> DNil"
  then have "os_lookup root (path_Join dir n) = Inr (File c)" and "st \<noteq> DNil" by simp_all
  from Dirs_Write_entry_dir_over_File [OF this, of rest] h
  show "Dirs_Write (Dirs (pre @ (n, st) # rest)) dir root0 = (Some ErrExist, root)"
    by (simp add: Dirs_Write_loop_append)
qed

lemma disk_tmp_lookups:
  "os_lookup disk_tmp (path_Join ''/tmp'' ''f'') = Inr (File ''old'')"
  "os_lookup disk_tmp (path_Join ''/tmp'' ''d'') = Inr (Dir [])"
  by (simp_all add: disk_tmp_def os_lookup_def path_elems_def path_Join_def path_Clean_def
      clean_elems_def clean_step_def)

theorem dirs_write_collision_policy_witness:
  "Dirs_Write (Dirs [(''f'', DNil)]) ''/tmp'' disk_tmp =
     (None, Dir [(''tmp'', Dir [(''f'', File []), (''d'', Dir [])])])
   \<and> Dirs_Write (Dirs [(''d'', Dirs [])]) ''/tmp'' disk_tmp = (None, disk_tmp)
   \<and> Dirs_Write (Dirs [(''d'', DNil)]) ''/tmp'' disk_tmp = (Some EISDIR, disk_tmp)
   \<and> Dirs_Write (Dirs [(''f'', Dirs [])]) ''/tmp'' disk_tmp = (Some ErrExist, disk_tmp)"
proof -
  have pre: "Dirs_Write_loop [] ''/tmp'' disk_tmp = (None, disk_tmp)" by simp
  note T = dirs_write_collision_policy
    [where pre = "[]" and dir = "''/tmp''" and ?root0.0 = disk_tmp and root = disk_tmp and rest = "[]"]
  have w: "writeEmptyFile (path_Join ''/tmp'' ''f'') disk_tmp =
             (None, Dir [(''tmp'', Dir [(''f'', File []), (''d'', Dir [])])])"
    by (simp add: writeEmptyFile_def os_WriteFile_def disk_tmp_lookups bytes_data_def)
       (simp add: disk_tmp_def path_elems_def path_Join_def path_Clean_def
          clean_elems_def clean_step_def)
  have a: "Dirs_Write (Dirs [(''f'', DNil)]) ''/tmp'' disk_tmp =
     (None, Dir [(''tmp'', Dir [(''f'', File []), (''d'', Dir [])])])"
    using T [where n = "''f''" and c = "''old''"] pre disk_tmp_lookups w by simp
  have b: "Dirs_Write (Dirs [(''d'', Dirs [])]) ''/tmp'' disk_tmp = (None, disk_tmp)"
    using T [where n = "''d''" and es = "[]" and st = "Dirs []"] pre disk_tmp_lookups by simp
  have c: "Dirs_Write (Dirs [(''d'', DNil)]) ''/tmp'' disk_tmp = (Some EISDIR, disk_tmp)"
    using T [where n = "''d''" and es = "[]"] pre disk_tmp_lookups by simp
  have d: "Dirs_Write (Dirs [(''f'', Dirs [])]) ''/tmp'' disk_tmp = (Some ErrExist, disk_tmp)"
    using T [where n = "''f''" and c = "''old''" and st = "Dirs []"] pre disk_tmp_lookups by simp
  from a b c d show ?thesis by simp
qed

section \<open>Dirs.Write: what a successful write keeps\<close>

lemma keeps_empty_files_refl [simp]: "keeps_empty_files root root"
  by (simp add: keeps_empty_files_def)

lemma keeps_empty_files_trans:
  "keeps_empty_files a b \<Longrightarrow> keeps_empty_files b c \<Longrightarrow> keeps_empty_files a c"
  by (simp add: keeps_empty_files_def)

lemma keeps_files_empty: "keeps_files a b \<Longrightarrow> keeps_empty_files a b"
  by (simp add: keeps_files_def keeps_empty_files_def)

lemma writeEmptyFile_keeps:
  assumes "writeEmptyFile name root = (None, root')"
  shows "keeps_dirs root root'" and "keeps_empty_files root root'"
    and "os_lookup root' name = Inr (File [])"
proof -
  from assms have w: "os_WriteFile name (Some []) root = (None, root')"
    by (simp add: writeEmptyFile_def)
  show "keeps_dirs root root'" using w by (rule os_WriteFile_keeps_dirs)
  from os_WriteFile_lookup [OF w] show l: "os_lookup root' name = Inr (File [])"
    by (simp add: bytes_data_def)
  show "keeps_empty_files root root'"
    unfolding keeps_empty_files_def
  proof (intro allI impI)
    fix q
    assume q: "walk root q = Inr (File [])"
    show "walk root' q = Inr (File [])"
    proof (cases "q = path_elems name")
      case True
      with l show ?thesis by (simp add: os_lookup_Inr)
    next
      case False
      with w q show ?thesis by (simp add: os_WriteFile_keeps_other_files)
    qed
  qed
qed

lemma writeEmptyFile_accepted:
  assumes "writeEmptyFile name root = (err, root1)" and "isWriteErrOk err name False root1"
  shows "err = None"
proof (cases err)
  case None
  then show ?thesis .
next
  case (Some e)
  with assms(1) have "e \<noteq> ErrExist"
    by (auto simp: writeEmptyFile_def dest: os_WriteFile_not_ErrExist)
  with assms(2) Some show ?thesis by (simp add: isWriteErrOk_other)
qed

lemma os_Mkdir_accepted:
  assumes "os_Mkdir name root = (err, root1)" and "isWriteErrOk err name True root1"
  shows "keeps_dirs root root1" and "keeps_files root root1"
    and "\<exists>es. os_lookup root1 name = Inr (Dir es)"
proof -
  have "keeps_dirs root root1 \<and> keeps_files root root1 \<and> (\<exists>es. os_lookup root1 name = Inr (Dir es))"
  proof (cases err)
    case None
    with assms(1) have m: "os_Mkdir name root = (None, root1)" by simp
    from os_Mkdir_keeps [OF m] os_Mkdir_lookup [OF m] show ?thesis by simp
  next
    case (Some e)
    with assms(1) have same: "root1 = root" by (auto dest: os_Mkdir_err)
    have "e = ErrExist"
      using assms(2) Some by (cases "e = ErrExist") (simp_all add: isWriteErrOk_other)
    with assms(2) Some same obtain t where "os_lookup root name = Inr t" and "is_Dir t"
      by (auto simp: isWriteErrOk_ErrExist split: sum.splits)
    then have "\<exists>es. os_lookup root name = Inr (Dir es)" by (cases t) auto
    with same show ?thesis by simp
  qed
  then show "keeps_dirs root root1" and "keeps_files root root1"
    and "\<exists>es. os_lookup root1 name = Inr (Dir es)" by simp_all
qed

lemma Dirs_Write_entry_file:
  assumes "Dirs_Write_loop ((n, DNil) # rest) dir root = (None, root')"
  obtains root1 where "writeEmptyFile (path_Join dir n) root = (None, root1)"
    and "Dirs_Write_loop rest dir root1 = (None, root')"
proof -
  obtain err root1 where w: "writeEmptyFile (path_Join dir n) root = (err, root1)"
    by (cases "writeEmptyFile (path_Join dir n) root")
  with assms have ok: "isWriteErrOk err (path_Join dir n) False root1"
    by (auto simp: Let_def split: if_splits)
  with w have "err = None" by (rule writeEmptyFile_accepted)
  with assms w that show ?thesis by (simp add: Let_def)
qed

lemma Dirs_Write_entry_dir:
  assumes "Dirs_Write_loop ((n, st) # rest) dir root = (None, root')" and "st \<noteq> DNil"
  obtains err root1 root2 where "os_Mkdir (path_Join dir n) root = (err, root1)"
    and "isWriteErrOk err (path_Join dir n) True root1"
    and "Dirs_Write st (path_Join dir n) root1 = (None, root2)"
    and "Dirs_Write_loop rest dir root2 = (None, root')"
proof -
  obtain err root1 where m: "os_Mkdir (path_Join dir n) root = (err, root1)"
    by (cases "os_Mkdir (path_Join dir n) root")
  with assms have ok: "isWriteErrOk err (path_Join dir n) True root1"
    by (auto simp: Let_def split: if_splits)
  obtain err2 root2 where d: "Dirs_Write st (path_Join dir n) root1 = (err2, root2)"
    by (cases "Dirs_Write st (path_Join dir n) root1")
  with assms m ok have "err2 = None" and "Dirs_Write_loop rest dir root2 = (None, root')"
    by (auto simp: Let_def split: if_splits)
  with m ok d that show ?thesis by simp
qed

lemma Dirs_Write_keeps:
  "Dirs_Write S dir root = (None, root') \<Longrightarrow> keeps_dirs root root' \<and> keeps_empty_files root root'"
  "Dirs_Write_loop xs dir root = (None, root') \<Longrightarrow> keeps_dirs root root' \<and> keeps_empty_files root root'"
proof (induction S dir root and xs dir root arbitrary: root' and root'
    rule: Dirs_Write_Dirs_Write_loop.induct)
  case (1 dir root)
  then show ?case by simp
next
  case (2 d dir root)
  then show ?case by simp
next
  case (3 dir root)
  then show ?case by simp
next
  case (4 n st rest dir root)
  let ?name = "path_Join dir n"
  show ?case
  proof (cases "st = DNil")
    case True
    with "4.prems" have p: "Dirs_Write_loop ((n, DNil) # rest) dir root = (None, root')"
      by simp
    from p obtain root1 where w: "writeEmptyFile ?name root = (None, root1)"
      and r: "Dirs_Write_loop rest dir root1 = (None, root')"
      by (rule Dirs_Write_entry_file)
    have "keeps_dirs root1 root' \<and> keeps_empty_files root1 root'"
      using "4.IH"(1) [OF refl True w [symmetric] _ r] by simp
    with writeEmptyFile_keeps(1,2) [OF w] show ?thesis
      by (auto intro: keeps_dirs_trans keeps_empty_files_trans)
  next
    case False
    from "4.prems" False obtain err root1 root2 where m: "os_Mkdir ?name root = (err, root1)"
      and ok: "isWriteErrOk err ?name True root1"
      and d: "Dirs_Write st ?name root1 = (None, root2)"
      and r: "Dirs_Write_loop rest dir root2 = (None, root')"
      by (rule Dirs_Write_entry_dir)
    have 1: "keeps_dirs root1 root2 \<and> keeps_empty_files root1 root2"
      using "4.IH"(2) [OF refl False m [symmetric] _ d] ok by simp
    have 2: "keeps_dirs root2 root' \<and> keeps_empty_files root2 root'"
      using "4.IH"(3) [OF refl False m [symmetric] _ d [symmetric] _ r] ok by simp
    from os_Mkdir_accepted(1,2) [OF m ok] 1 2 show ?thesis
      by (auto intro: keeps_dirs_trans keeps_empty_files_trans keeps_files_empty)
  qed
qed

text \<open>
  Claim C9. Let the entries \<open>pre\<close> be written without error, leaving the disk
  \<open>root\<close>, and let the next entry be a file marker whose target is an existing
  plain file with contents \<open>c\<close>. Then the write of the entry returns no error,
  \<open>Write\<close> goes on with the rest, and the file is empty afterwards, whatever
  \<open>c\<close> was; it is still empty when \<open>Write\<close> returns without error.
\<close>

theorem dirs_write_truncates_existing_file:
  "Dirs_Write_loop pre dir root0 = (None, root)
     \<and> os_lookup root (path_Join dir n) = Inr (File c)
   \<longrightarrow> fst (writeEmptyFile (path_Join dir n) root) = None
     \<and> Dirs_Write (Dirs (pre @ (n, DNil) # rest)) dir root0 =
         Dirs_Write_loop rest dir (snd (writeEmptyFile (path_Join dir n) root))
     \<and> os_lookup (snd (writeEmptyFile (path_Join dir n) root)) (path_Join dir n) = Inr (File [])
     \<and> (\<forall>root'. Dirs_Write (Dirs (pre @ (n, DNil) # rest)) dir root0 = (None, root')
            \<longrightarrow> os_lookup root' (path_Join dir n) = Inr (File []))"
proof (intro impI)
  let ?name = "path_Join dir n"
  let ?root1 = "snd (writeEmptyFile ?name root)"
  assume h: "Dirs_Write_loop pre dir root0 = (None, root) \<and> os_lookup root ?name = Inr (File c)"
  then have pre: "Dirs_Write_loop pre dir root0 = (None, root)"
    and l: "os_lookup root ?name = Inr (File c)" by simp_all
  note e = Dirs_Write_entry_file_over_File [OF l]
  have run: "Dirs_Write (Dirs (pre @ (n, DNil) # rest)) dir root0 = Dirs_Write_loop rest dir ?root1"
    using pre e(2) [of rest] by (simp add: Dirs_Write_loop_append)
  have final: "os_lookup root' ?name = Inr (File [])"
    if "Dirs_Write (Dirs (pre @ (n, DNil) # rest)) dir root0 = (None, root')" for root'
  proof -
    from that run have "Dirs_Write_loop rest dir ?root1 = (None, root')" by simp
    then have "keeps_empty_files ?root1 root'" by (simp add: Dirs_Write_keeps(2))
    with e(3) show ?thesis by (simp add: os_lookup_Inr keeps_empty_files_def)
  qed
  from e(1) run e(3) final
  show "fst (writeEmptyFile ?name root) = None
     \<and> Dirs_Write (Dirs (pre @ (n, DNil) # rest)) dir root0 = Dirs_Write_loop rest dir ?root1
     \<and> os_lookup ?root1 ?name = Inr (File [])
     \<and> (\<forall>root'. Dirs_Write (Dirs (pre @ (n, DNil) # rest)) dir root0 = (None, root')
            \<longrightarrow> os_lookup root' ?name = Inr (File []))"
    by blast
qed

theorem dirs_write_truncates_existing_file_witness:
  "os_lookup disk_tmp (path_Join ''/tmp'' ''f'') = Inr (File ''old'')
   \<and> Dirs_Write (Dirs [(''f'', DNil)]) ''/tmp'' disk_tmp =
       (None, Dir [(''tmp'', Dir [(''f'', File []), (''d'', Dir [])])])
   \<and> os_lookup (Dir [(''tmp'', Dir [(''f'', File []), (''d'', Dir [])])]) (path_Join ''/tmp'' ''f'')
       = Inr (File [])"
proof -
  have pre: "Dirs_Write_loop [] ''/tmp'' disk_tmp = (None, disk_tmp)" by simp
  have w: "writeEmptyFile (path_Join ''/tmp'' ''f'') disk_tmp =
             (None, Dir [(''tmp'', Dir [(''f'', File []), (''d'', Dir [])])])"
    by (simp add: writeEmptyFile_def os_WriteFile_def disk_tmp_lookups bytes_data_def)
       (simp add: disk_tmp_def path_elems_def path_Join_def path_Clean_def
          clean_elems_def clean_step_def)
  from dirs_write_truncates_existing_file
    [where pre = "[]" and dir = "''/tmp''" and ?root0.0 = disk_tmp and root = disk_tmp
       and rest = "[]" and n = "''f''" and c = "''old''"]
    pre disk_tmp_lookups(1) w
  show ?thesis by simp
qed

section \<open>Files.Write: collisions and nil contents\<close>

lemma Files_Write_entry:
  assumes "os_MkdirAll (path_Dir (path_Join dir n)) root = (None, root1)"
    and "os_WriteFile (path_Join dir n) data root1 = (None, root2)"
  shows "Files_Write ((n, data) # rest) dir root = Files_Write rest dir root2"
  using assms by (simp add: Let_def)

lemma Files_Write_entry_over_File:
  assumes "is_Dir root" and "os_lookup root (path_Join dir n) = Inr (File c)"
  shows "fst (os_WriteFile (path_Join dir n) data root) = None"
    and "Files_Write ((n, data) # rest) dir root =
           Files_Write rest dir (snd (os_WriteFile (path_Join dir n) data root))"
    and "os_lookup (snd (os_WriteFile (path_Join dir n) data root)) (path_Join dir n)
           = Inr (File (bytes_data data))"
proof -
  let ?p = "path_Join dir n"
  from parent_exists_Dir [OF assms(2) _ refl] assms(1)
  obtain es where "os_lookup root (path_Dir ?p) = Inr (Dir es)" by blast
  then have m: "os_MkdirAll (path_Dir ?p) root = (None, root)"
    by (rule os_MkdirAll_existing)
  let ?root2 = "graft root (path_elems ?p) (File (bytes_data data))"
  have w: "os_WriteFile ?p data root = (None, ?root2)"
    using assms(2) by (rule os_WriteFile_over_File)
  then show "fst (os_WriteFile ?p data root) = None" by simp
  from Files_Write_entry [OF m w] w
  show "Files_Write ((n, data) # rest) dir root = Files_Write rest dir (snd (os_WriteFile ?p data root))"
    by simp
  from os_WriteFile_lookup [OF w] w
  show "os_lookup (snd (os_WriteFile ?p data root)) ?p = Inr (File (bytes_data data))"
    by simp
qed

lemma Files_Write_entry_over_Dir:
  assumes "os_lookup root (path_Join dir n) = Inr (Dir es)"
  shows "Files_Write ((n, data) # rest) dir root = (Some EISDIR, root)"
proof -
  let ?p = "path_Join dir n"
  from parent_exists_Dir [OF assms _ refl]
  obtain es' where "os_lookup root (path_Dir ?p) = Inr (Dir es')" by auto
  then have m: "os_MkdirAll (path_Dir ?p) root = (None, root)"
    by (rule os_MkdirAll_existing)
  have w: "os_WriteFile ?p data root = (Some EISDIR, root)"
    using assms by (rule os_WriteFile_over_Dir)
  from m w show ?thesis by (simp add: Let_def)
qed

text \<open>
  Claim C7. Let the entries \<open>pre\<close> be written without error, leaving the disk
  \<open>root\<close> (whose root is a directory), and let \<open>(n, data)\<close> be the next entry,
  with leaf path \<open>path.Join(dir, n)\<close>.
  \<^item> The leaf is an existing plain file: \<open>os.WriteFile\<close> returns no error,
    \<open>Write\<close> goes on with the rest, and the file then holds \<open>data\<close>, whatever it
    held before.
  \<^item> The leaf is an existing directory: \<open>Write\<close> returns an error (is a
    directory) and the disk it leaves is the disk \<open>root\<close>, in which the leaf is
    that directory.
\<close>

theorem files_write_collision_policy:
  "(is_Dir root \<and> Files_Write pre dir root0 = (None, root)
      \<and> os_lookup root (path_Join dir n) = Inr (File c)
    \<longrightarrow> fst (os_WriteFile (path_Join dir n) data root) = None
      \<and> Files_Write (pre @ (n, data) # rest) dir root0 =
          Files_Write rest dir (snd (os_WriteFile (path_Join dir n) data root))
      \<and> os_lookup (snd (os_WriteFile (path_Join dir n) data root)) (path_Join dir n)
          = Inr (File (bytes_data data)))
   \<and> (Files_Write pre dir root0 = (None, root)
      \<and> os_lookup root (path_Join dir n) = Inr (Dir es)
    \<longrightarrow> Files_Write (pre @ (n, data) # rest) dir root0 = (Some EISDIR, root))"
proof (intro conjI impI)
  assume h: "is_Dir root \<and> Files_Write pre dir root0 = (None, root)
      \<and> os_lookup root (path_Join dir n) = Inr (File c)"
  then have d: "is_Dir root" and l: "os_lookup root (path_Join dir n) = Inr (File c)"
    and pre: "Files_Write pre dir root0 = (None, root)" by simp_all
  note e = Files_Write_entry_over_File [OF d l]
  show "fst (os_WriteFile (path_Join dir n) data root) = None" by (rule e(1))
  show "Files_Write (pre @ (n, data) # rest) dir root0 =
          Files_Write rest dir (snd (os_WriteFile (path_Join dir n) data root))"
    using e(2) [of data rest] pre by (simp add: Files_Write_append)
  show "os_lookup (snd (os_WriteFile (path_Join dir n) data root)) (path_Join dir n)
          = Inr (File (bytes_data data))" by (rule e(3))
next
  assume h: "Files_Write pre dir root0 = (None, root)
      \<and> os_lookup root (path_Join dir n) = Inr (Dir es)"
  then have l: "os_lookup root (path_Join dir n) = Inr (Dir es)"
    and pre: "Files_Write pre dir root0 = (None, root)" by simp_all
  from Files_Write_entry_over_Dir [OF l, of data rest] pre
  show "Files_Write (pre @ (n, data) # rest) dir root0 = (Some EISDIR, root)"
    by (simp add: Files_Write_append)
qed

lemma disk_tmp_paths:
  "path_Join ''/tmp'' ''f'' = ''/tmp/f''"
  "path_Join ''/tmp'' ''d'' = ''/tmp/d''"
  "path_Join ''/tmp'' ''myFile'' = ''/tmp/myFile''"
  "path_Dir ''/tmp/myFile'' = ''/tmp''"
  "path_elems ''/tmp/f'' = [''tmp'', ''f'']"
  "path_elems ''/tmp/d'' = [''tmp'', ''d'']"
  "path_elems ''/tmp/myFile'' = [''tmp'', ''myFile'']"
  "path_elems ''/tmp'' = [''tmp'']"
  by (simp_all add: path_elems_def path_Join_def path_Dir_def dir_part_def path_Clean_def
      clean_elems_def clean_step_def)

theorem files_write_collision_policy_witness:
  "is_Dir disk_tmp
   \<and> os_lookup disk_tmp (path_Join ''/tmp'' ''f'') = Inr (File ''old'')
   \<and> Files_Write [(''f'', Some ''new'')] ''/tmp'' disk_tmp =
       (None, Dir [(''tmp'', Dir [(''f'', File ''new''), (''d'', Dir [])])])
   \<and> os_lookup disk_tmp (path_Join ''/tmp'' ''d'') = Inr (Dir [])
   \<and> Files_Write [(''d'', Some ''data'')] ''/tmp'' disk_tmp = (Some EISDIR, disk_tmp)"
proof -
  have d: "is_Dir disk_tmp" by (simp add: disk_tmp_def)
  have pre: "Files_Write [] ''/tmp'' disk_tmp = (None, disk_tmp)" by simp
  have w: "os_WriteFile (path_Join ''/tmp'' ''f'') (Some ''new'') disk_tmp =
             (None, Dir [(''tmp'', Dir [(''f'', File ''new''), (''d'', Dir [])])])"
    by (simp add: os_WriteFile_def disk_tmp_lookups bytes_data_def)
       (simp add: disk_tmp_paths disk_tmp_def)
  note T = files_write_collision_policy
    [where pre = "[]" and dir = "''/tmp''" and ?root0.0 = disk_tmp and root = disk_tmp and rest = "[]"]
  have a: "Files_Write [(''f'', Some ''new'')] ''/tmp'' disk_tmp =
       (None, Dir [(''tmp'', Dir [(''f'', File ''new''), (''d'', Dir [])])])"
    using T [where n = "''f''" and c = "''old''" and data = "Some ''new''"]
      d pre disk_tmp_lookups(1) w by simp
  have b: "Files_Write [(''d'', Some ''data'')] ''/tmp'' disk_tmp = (Some EISDIR, disk_tmp)"
    using T [where n = "''d''" and es = "[]" and data = "Some ''data''"]
      pre disk_tmp_lookups(2) by simp
  from d a b disk_tmp_lookups show ?thesis by simp
qed

lemma bytes_data_nil: "bytes_data None = bytes_data (Some [])"
  by (simp add: bytes_data_def)

lemma os_WriteFile_nil: "os_WriteFile name None root = os_WriteFile name (Some []) root"
  unfolding os_WriteFile_def bytes_data_nil by (rule refl)

lemma Files_Write_head_nil:
  "Files_Write ((n, None) # rest) dir root = Files_Write ((n, Some []) # rest) dir root"
  unfolding Files_Write.simps os_WriteFile_nil by (rule refl)

lemma Files_Write_cong_tail:
  assumes "\<And>root. Files_Write xs dir root = Files_Write ys dir root"
  shows "Files_Write (pre @ xs) dir root = Files_Write (pre @ ys) dir root"
proof (induction pre arbitrary: root)
  case Nil
  show ?case by (simp add: assms)
next
  case (Cons e pre)
  obtain n data where e: "e = (n, data)" by (cases e)
  show ?case
    unfolding e by (simp add: Let_def Cons.IH split: prod.splits)
qed

lemma os_WriteFile_succeeds:
  assumes "name \<noteq> []" and "dir_at root (butlast (path_elems name))"
    and "\<forall>es. os_lookup root name \<noteq> Inr (Dir es)"
  shows "os_WriteFile name data root =
           (None, graft root (path_elems name) (File (bytes_data data)))"
proof (cases "os_lookup root name")
  case (Inr t)
  with assms(3) obtain c where "t = File c" by (cases t) auto
  with Inr show ?thesis by (simp add: os_WriteFile_over_File)
next
  case (Inl e)
  from assms(2) obtain es where p: "walk root (butlast (path_elems name)) = Inr (Dir es)"
    by (auto simp: dir_at_iff)
  have ne: "path_elems name \<noteq> []"
    using Inl assms(1) by (auto simp: os_lookup_def)
  then have "path_elems name = butlast (path_elems name) @ [last (path_elems name)]"
    by simp
  then have "walk root (path_elems name) =
               (case map_of es (last (path_elems name)) of None \<Rightarrow> Inl ErrNotExist | Some c \<Rightarrow> Inr c)"
    using walk_snoc [OF p, of "last (path_elems name)"] by simp
  with Inl assms(1) have "e = ErrNotExist"
    by (auto simp: os_lookup_def split: option.splits)
  with Inl assms(1) p show ?thesis by (simp add: os_WriteFile_def)
qed

lemma Files_Write_entry_succeeds:
  assumes "n \<noteq> []" and "os_MkdirAll (path_Dir (path_Join dir n)) root = (None, root1)"
    and "\<forall>es. os_lookup root1 (path_Join dir n) \<noteq> Inr (Dir es)"
  shows "fst (os_WriteFile (path_Join dir n) data root1) = None"
    and "Files_Write ((n, data) # rest) dir root =
           Files_Write rest dir (snd (os_WriteFile (path_Join dir n) data root1))"
    and "os_lookup (snd (os_WriteFile (path_Join dir n) data root1)) (path_Join dir n)
           = Inr (File (bytes_data data))"
proof -
  let ?p = "path_Join dir n"
  from assms(1) have ne: "?p \<noteq> []" by simp
  from os_MkdirAll_lookup [OF assms(2)]
  have "dir_at root1 (path_elems (path_Dir ?p))"
    by (auto simp: os_lookup_Inr dir_at_iff)
  then have "dir_at root1 (butlast (path_elems ?p))"
    by (simp add: path_elems_Dir_Join)
  with ne have w: "os_WriteFile ?p data root1 =
           (None, graft root1 (path_elems ?p) (File (bytes_data data)))"
    using assms(3) by (rule os_WriteFile_succeeds)
  then show "fst (os_WriteFile ?p data root1) = None" by simp
  from Files_Write_entry [OF assms(2) w] w
  show "Files_Write ((n, data) # rest) dir root =
           Files_Write rest dir (snd (os_WriteFile ?p data root1))" by simp
  from os_WriteFile_lookup [OF w] w
  show "os_lookup (snd (os_WriteFile ?p data root1)) ?p = Inr (File (bytes_data data))"
    by simp
qed

text \<open>
  Claim C10. An entry whose value is the nil slice is written exactly as the
  same entry with an empty slice: \<open>Write\<close> returns the same error and leaves
  the same disk. Whenever the directories above the leaf can be ensured and the
  leaf is not a directory, the write of the entry returns no error and the leaf
  is then a file of length zero.
\<close>

theorem files_write_nil_content:
  "Files_Write (pre @ (n, None) # rest) dir root0 = Files_Write (pre @ (n, Some []) # rest) dir root0
   \<and> (Files_Write pre dir root0 = (None, root) \<and> n \<noteq> []
        \<and> os_MkdirAll (path_Dir (path_Join dir n)) root = (None, root1)
        \<and> (\<forall>es. os_lookup root1 (path_Join dir n) \<noteq> Inr (Dir es))
      \<longrightarrow> fst (os_WriteFile (path_Join dir n) None root1) = None
        \<and> Files_Write (pre @ (n, None) # rest) dir root0 =
            Files_Write rest dir (snd (os_WriteFile (path_Join dir n) None root1))
        \<and> os_lookup (snd (os_WriteFile (path_Join dir n) None root1)) (path_Join dir n)
            = Inr (File []))"
proof (intro conjI impI)
  show "Files_Write (pre @ (n, None) # rest) dir root0 = Files_Write (pre @ (n, Some []) # rest) dir root0"
    by (rule Files_Write_cong_tail) (rule Files_Write_head_nil)
next
  assume h: "Files_Write pre dir root0 = (None, root) \<and> n \<noteq> []
        \<and> os_MkdirAll (path_Dir (path_Join dir n)) root = (None, root1)
        \<and> (\<forall>es. os_lookup root1 (path_Join dir n) \<noteq> Inr (Dir es))"
  then have pre: "Files_Write pre dir root0 = (None, root)" and n: "n \<noteq> []"
    and m: "os_MkdirAll (path_Dir (path_Join dir n)) root = (None, root1)"
    and nd: "\<forall>es. os_lookup root1 (path_Join dir n) \<noteq> Inr (Dir es)" by simp_all
  note e = Files_Write_entry_succeeds [OF n m nd]
  show "fst (os_WriteFile (path_Join dir n) None root1) = None" by (rule e(1))
  show "Files_Write (pre @ (n, None) # rest) dir root0 =
            Files_Write rest dir (snd (os_WriteFile (path_Join dir n) None root1))"
    using e(2) [of None rest] pre by (simp add: Files_Write_append)
  show "os_lookup (snd (os_WriteFile (path_Join dir n) None root1)) (path_Join dir n) = Inr (File [])"
    using e(3) [of None] by (simp add: bytes_data_def)
qed

theorem files_write_nil_content_witness:
  "Files_Write [(''myFile'', None)] ''/tmp'' disk_tmp =
     (None, Dir [(''tmp'', Dir [(''f'', File ''old''), (''d'', Dir []), (''myFile'', File [])])])
   \<and> Files_Write [(''myFile'', Some [])] ''/tmp'' disk_tmp =
     (None, Dir [(''tmp'', Dir [(''f'', File ''old''), (''d'', Dir []), (''myFile'', File [])])])
   \<and> os_lookup (Dir [(''tmp'', Dir [(''f'', File ''old''), (''d'', Dir []), (''myFile'', File [])])])
         (path_Join ''/tmp'' ''myFile'') = Inr (File [])"
proof -
  let ?after = "Dir [(''tmp'', Dir [(''f'', File ''old''), (''d'', Dir []), (''myFile'', File [])])]"
  have pre: "Files_Write [] ''/tmp'' disk_tmp = (None, disk_tmp)" by simp
  have n: "''myFile'' \<noteq> []" by simp
  have m: "os_MkdirAll (path_Dir (path_Join ''/tmp'' ''myFile'')) disk_tmp = (None, disk_tmp)"
    by (simp add: os_MkdirAll_def os_lookup_def disk_tmp_paths disk_tmp_def)
  have nd: "\<forall>es. os_lookup disk_tmp (path_Join ''/tmp'' ''myFile'') \<noteq> Inr (Dir es)"
    by (simp add: os_lookup_def disk_tmp_paths disk_tmp_def)
  have w: "os_WriteFile (path_Join ''/tmp'' ''myFile'') None disk_tmp = (None, ?after)"
    by (simp add: os_WriteFile_def os_lookup_def disk_tmp_paths disk_tmp_def bytes_data_def)
  note T = files_write_nil_content
    [where pre = "[]" and dir = "''/tmp''" and ?root0.0 = disk_tmp and root = disk_tmp
       and rest = "[]" and n = "''myFile''" and ?root1.0 = disk_tmp]
  from T have eq: "Files_Write ([] @ [(''myFile'', None)]) ''/tmp'' disk_tmp =
      Files_Write ([] @ [(''myFile'', Some [])]) ''/tmp'' disk_tmp"
    by blast
  from T pre n m nd
  have r: "Files_Write ([] @ [(''myFile'', None)]) ''/tmp'' disk_tmp =
      Files_Write [] ''/tmp'' (snd (os_WriteFile (path_Join ''/tmp'' ''myFile'') None disk_tmp))"
    and l: "os_lookup (snd (os_WriteFile (path_Join ''/tmp'' ''myFile'') None disk_tmp))
              (path_Join ''/tmp'' ''myFile'') = Inr (File [])"
    by blast+
  from r have a: "Files_Write [(''myFile'', None)] ''/tmp'' disk_tmp = (None, ?after)"
    by (simp only: append_Nil w snd_conv Files_Write.simps(1))
  from eq a have b: "Files_Write [(''myFile'', Some [])] ''/tmp'' disk_tmp = (None, ?after)"
    by (simp only: append_Nil)
  from l have c: "os_lookup ?after (path_Join ''/tmp'' ''myFile'') = Inr (File [])"
    by (simp only: w snd_conv)
  from a b c show ?thesis by (intro conjI)
qed

section \<open>Both scanners: the result of a scan, with and without an error\<close>

lemma ReadFS_loop_ok:
  assumes "\<forall>e\<in>set es. IsDir e \<and> n \<noteq> 0 \<longrightarrow>
             ReadFS k fsys (path_Join dir (Name e)) (n - 1) = Some (sub e, None)"
  shows "ReadFS_loop k fsys dir n es t = Some (Dirs (fold (dirs_record n sub) es t), None)"
  using assms
proof (induction es arbitrary: t)
  case Nil
  show ?case by simp
next
  case (Cons e es)
  from Cons.prems have rest: "\<forall>e\<in>set es. IsDir e \<and> n \<noteq> 0 \<longrightarrow>
             ReadFS k fsys (path_Join dir (Name e)) (n - 1) = Some (sub e, None)"
    by simp
  note IH = Cons.IH [OF rest]
  consider (plain) "\<not> IsDir e" | (cutoff) "IsDir e" "n = 0" | (descend) "IsDir e" "n \<noteq> 0"
    by blast
  then show ?case
  proof cases
    case plain
    then have rec: "dirs_record n sub e t = AList.update (Name e) DNil t"
      by (simp add: dirs_record_def)
    have "ReadFS_loop k fsys dir n (e # es) t =
            ReadFS_loop k fsys dir n es (AList.update (Name e) DNil t)"
      using plain by (simp add: Let_def)
    also have "\<dots> = Some (Dirs (fold (dirs_record n sub) es (AList.update (Name e) DNil t)), None)"
      by (rule IH)
    finally show ?thesis by (simp only: fold.simps o_apply rec)
  next
    case cutoff
    then have rec: "dirs_record n sub e t = AList.update (Name e) (Dirs []) t"
      by (simp add: dirs_record_def)
    have "ReadFS_loop k fsys dir n (e # es) t =
            ReadFS_loop k fsys dir n es (AList.update (Name e) (Dirs []) t)"
      using cutoff by (simp add: Let_def)
    also have "\<dots> = Some (Dirs (fold (dirs_record n sub) es (AList.update (Name e) (Dirs []) t)), None)"
      by (rule IH)
    finally show ?thesis by (simp only: fold.simps o_apply rec)
  next
    case descend
    then have rec: "dirs_record n sub e t = AList.update (Name e) (sub e) t"
      by (simp add: dirs_record_def)
    from descend Cons.prems have "ReadFS k fsys (path_Join dir (Name e)) (n - 1) = Some (sub e, None)"
      by simp
    with descend have "ReadFS_loop k fsys dir n (e # es) t =
            ReadFS_loop k fsys dir n es (AList.update (Name e) (sub e) t)"
      by (simp add: Let_def)
    also have "\<dots> = Some (Dirs (fold (dirs_record n sub) es (AList.update (Name e) (sub e) t)), None)"
      by (rule IH)
    finally show ?thesis by (simp only: fold.simps o_apply rec)
  qed
qed

lemma readFS_loop_ok:
  assumes "\<forall>e\<in>set es. \<not> IsDir e \<longrightarrow> file_read_ok fsys rootDir subDir e"
    and "\<forall>e\<in>set es. \<forall>g. IsDir e \<and> n \<noteq> 0 \<longrightarrow>
           readFS k fsys rootDir (path_Join subDir (Name e)) (n - 1) g = Some (sub e g, None)"
  shows "readFS_loop k fsys rootDir subDir n es f =
           Some (fold (files_record fsys rootDir subDir n sub) es f, None)"
  using assms
proof (induction es arbitrary: f)
  case Nil
  show ?case by simp
next
  case (Cons e es)
  from Cons.prems have r1: "\<forall>e\<in>set es. \<not> IsDir e \<longrightarrow> file_read_ok fsys rootDir subDir e"
    and r2: "\<forall>e\<in>set es. \<forall>g. IsDir e \<and> n \<noteq> 0 \<longrightarrow>
           readFS k fsys rootDir (path_Join subDir (Name e)) (n - 1) g = Some (sub e g, None)"
    by simp_all
  note IH = Cons.IH [OF r1 r2]
  let ?p = "path_Join (path_Join rootDir subDir) (Name e)"
  let ?sp = "path_Join subDir (Name e)"
  consider (plain) "\<not> IsDir e" | (cutoff) "IsDir e" "n = 0" | (descend) "IsDir e" "n \<noteq> 0"
    by blast
  then show ?case
  proof cases
    case plain
    with Cons.prems(1) have ok: "file_read_ok fsys rootDir subDir e" by simp
    obtain data err where rd: "fs_ReadFile fsys ?p = (data, err)"
      by (cases "fs_ReadFile fsys ?p")
    from plain rd have rec: "files_record fsys rootDir subDir n sub e f = AList.update ?sp data f"
      by (simp add: files_record_def)
    from ok rd have "err = None \<or> err = Some EOF" by (simp add: file_read_ok_def)
    with plain rd have "readFS_loop k fsys rootDir subDir n (e # es) f =
        readFS_loop k fsys rootDir subDir n es (AList.update ?sp data f)"
      by (auto simp: Let_def)
    also have "\<dots> = Some (fold (files_record fsys rootDir subDir n sub) es (AList.update ?sp data f), None)"
      by (rule IH)
    finally show ?thesis by (simp only: fold.simps o_apply rec)
  next
    case cutoff
    then have rec: "files_record fsys rootDir subDir n sub e f = f"
      by (simp add: files_record_def)
    have "readFS_loop k fsys rootDir subDir n (e # es) f = readFS_loop k fsys rootDir subDir n es f"
      using cutoff by (simp add: Let_def)
    also have "\<dots> = Some (fold (files_record fsys rootDir subDir n sub) es f, None)"
      by (rule IH)
    finally show ?thesis by (simp only: fold.simps o_apply rec)
  next
    case descend
    then have rec: "files_record fsys rootDir subDir n sub e f = sub e f"
      by (simp add: files_record_def)
    from descend Cons.prems(2) have "readFS k fsys rootDir ?sp (n - 1) f = Some (sub e f, None)"
      by simp
    with descend have "readFS_loop k fsys rootDir subDir n (e # es) f =
        readFS_loop k fsys rootDir subDir n es (sub e f)"
      by (simp add: Let_def)
    also have "\<dots> = Some (fold (files_record fsys rootDir subDir n sub) es (sub e f), None)"
      by (rule IH)
    finally show ?thesis by (simp only: fold.simps o_apply rec)
  qed
qed

lemma dirs_record_keys:
  "fst ` set (fold (dirs_record n sub) es t) = Name ` set es \<union> fst ` set t"
  using fold_update_keys [of Name "\<lambda>e. if \<not> IsDir e then DNil else if n = 0 then Dirs [] else sub e" es t]
  by (simp add: dirs_record_def [abs_def])

lemma file_read_ok_iff:
  "file_read_ok fsys rootDir subDir e \<longleftrightarrow>
     (let rerr = snd (fs_ReadFile fsys (path_Join (path_Join rootDir subDir) (Name e)))
      in rerr = None \<or> rerr = Some EOF)"
  by (simp add: file_read_ok_def)

lemma ReadFS_listing_ok:
  assumes "fs_ReadDir fsys dir = (entries, err)" and "err = None \<or> err = Some EOF"
    and "\<forall>e\<in>set entries. IsDir e \<and> n \<noteq> 0 \<longrightarrow>
           ReadFS k fsys (path_Join dir (Name e)) (n - 1) = Some (sub e, None)"
  shows "ReadFS (Suc k) fsys dir n = Some (Dirs (fold (dirs_record n sub) entries []), None)"
proof -
  have "ReadFS (Suc k) fsys dir n = ReadFS_loop k fsys dir n entries []"
    using assms(1,2) by auto
  also have "\<dots> = Some (Dirs (fold (dirs_record n sub) entries []), None)"
    using assms(3) by (rule ReadFS_loop_ok)
  finally show ?thesis .
qed

lemma readFS_listing_ok:
  assumes "fs_ReadDir fsys (path_Join rootDir subDir) = (entries, err)"
    and "err = None \<or> err = Some EOF"
    and "\<forall>e\<in>set entries. \<not> IsDir e \<longrightarrow> file_read_ok fsys rootDir subDir e"
    and "\<forall>e\<in>set entries. \<forall>g. IsDir e \<and> n \<noteq> 0 \<longrightarrow>
           readFS k fsys rootDir (path_Join subDir (Name e)) (n - 1) g = Some (sub e g, None)"
  shows "readFS (Suc k) fsys rootDir subDir n f =
           Some (fold (files_record fsys rootDir subDir n sub) entries f, None)"
proof -
  have "readFS (Suc k) fsys rootDir subDir n f = readFS_loop k fsys rootDir subDir n entries f"
    using assms(1,2) by (auto simp: Let_def)
  also have "\<dots> = Some (fold (files_record fsys rootDir subDir n sub) entries f, None)"
    using assms(3,4) by (rule readFS_loop_ok)
  finally show ?thesis .
qed

text \<open>
  Claim C8. An \<open>io.EOF\<close> returned by the listing of a directory is taken as the end
  of the listing, and the scan goes on with the entries returned beside it.
  \<^item> \<open>dirsnap.ReadFS\<close>: when the listing of \<open>dir\<close> returns \<open>entries\<close> with
    \<open>io.EOF\<close> and the nested scans return \<open>sub e\<close> without error, the scan
    returns no error and the map that records every entry of \<open>entries\<close>, in order:
    nil for a file, the empty map for a directory at depth 0, \<open>sub e\<close> for a
    directory below; its keys are the names of \<open>entries\<close>.
  \<^item> \<open>Files.readFS\<close>, for every sub-directory and every receiver \<open>f\<close>: when the
    listing returns \<open>entries\<close> with \<open>io.EOF\<close>, the files can be read and the
    nested scans return without error, the scan returns no error and \<open>f\<close> with
    every file of \<open>entries\<close> recorded under its relative path with its data,
    and with what the nested scans add. \<open>filesnap.ReadFS\<close> is this scan from the
    root with an empty receiver.
  \<^item> Both scans return the same on a file system whose listings answer \<open>nil\<close>
    where they answered \<open>io.EOF\<close>, and neither ever returns \<open>io.EOF\<close>.
\<close>

theorem listing_EOF_scan_goes_on:
  "(fs_ReadDir fsys dir = (entries, Some EOF)
      \<and> (\<forall>e\<in>set entries. IsDir e \<and> n \<noteq> 0 \<longrightarrow>
            ReadFS k fsys (path_Join dir (Name e)) (n - 1) = Some (sub e, None))
    \<longrightarrow> ReadFS (Suc k) fsys dir n = Some (Dirs (fold (dirs_record n sub) entries []), None)
      \<and> fst ` set (fold (dirs_record n sub) entries []) = Name ` set entries)
   \<and> (fs_ReadDir fsys (path_Join rootDir subDir) = (entries, Some EOF)
      \<and> (\<forall>e\<in>set entries. \<not> IsDir e \<longrightarrow>
            (let rerr = snd (fs_ReadFile fsys (path_Join (path_Join rootDir subDir) (Name e)))
             in rerr = None \<or> rerr = Some EOF))
      \<and> (\<forall>e\<in>set entries. \<forall>g. IsDir e \<and> n \<noteq> 0 \<longrightarrow>
            readFS k fsys rootDir (path_Join subDir (Name e)) (n - 1) g = Some (fsub e g, None))
    \<longrightarrow> readFS (Suc k) fsys rootDir subDir n f =
          Some (fold (files_record fsys rootDir subDir n fsub) entries f, None))
   \<and> filesnap_ReadFS k fsys dir n = readFS k fsys dir [] n []
   \<and> ReadFS k (listing_EOF_as_nil fsys) dir n = ReadFS k fsys dir n
   \<and> filesnap_ReadFS k (listing_EOF_as_nil fsys) dir n = filesnap_ReadFS k fsys dir n
   \<and> (\<forall>r. ReadFS k fsys dir n \<noteq> Some (r, Some EOF))
   \<and> (\<forall>g. filesnap_ReadFS k fsys dir n \<noteq> Some (g, Some EOF))"
proof (intro conjI impI allI)
  assume h: "fs_ReadDir fsys dir = (entries, Some EOF)
      \<and> (\<forall>e\<in>set entries. IsDir e \<and> n \<noteq> 0 \<longrightarrow>
            ReadFS k fsys (path_Join dir (Name e)) (n - 1) = Some (sub e, None))"
  then have l: "fs_ReadDir fsys dir = (entries, Some EOF)"
    and nested: "\<forall>e\<in>set entries. IsDir e \<and> n \<noteq> 0 \<longrightarrow>
            ReadFS k fsys (path_Join dir (Name e)) (n - 1) = Some (sub e, None)"
    by simp_all
  have e: "Some EOF = None \<or> Some EOF = Some EOF" by simp
  show "ReadFS (Suc k) fsys dir n = Some (Dirs (fold (dirs_record n sub) entries []), None)"
    using l e nested by (rule ReadFS_listing_ok)
  show "fst ` set (fold (dirs_record n sub) entries []) = Name ` set entries"
    by (simp add: dirs_record_keys)
next
  assume h: "fs_ReadDir fsys (path_Join rootDir subDir) = (entries, Some EOF)
      \<and> (\<forall>e\<in>set entries. \<not> IsDir e \<longrightarrow>
            (let rerr = snd (fs_ReadFile fsys (path_Join (path_Join rootDir subDir) (Name e)))
             in rerr = None \<or> rerr = Some EOF))
      \<and> (\<forall>e\<in>set entries. \<forall>g. IsDir e \<and> n \<noteq> 0 \<longrightarrow>
            readFS k fsys rootDir (path_Join subDir (Name e)) (n - 1) g = Some (fsub e g, None))"
  then have l: "fs_ReadDir fsys (path_Join rootDir subDir) = (entries, Some EOF)"
    and ok: "\<forall>e\<in>set entries. \<not> IsDir e \<longrightarrow> file_read_ok fsys rootDir subDir e"
    and nested: "\<forall>e\<in>set entries. \<forall>g. IsDir e \<and> n \<noteq> 0 \<longrightarrow>
            readFS k fsys rootDir (path_Join subDir (Name e)) (n - 1) g = Some (fsub e g, None)"
    by (simp_all add: file_read_ok_iff)
  have e: "Some EOF = None \<or> Some EOF = Some EOF" by simp
  show "readFS (Suc k) fsys rootDir subDir n f =
          Some (fold (files_record fsys rootDir subDir n fsub) entries f, None)"
    using l e ok nested by (rule readFS_listing_ok)
next
  show "filesnap_ReadFS k fsys dir n = readFS k fsys dir [] n []"
    by (simp add: filesnap_ReadFS_def)
  show "ReadFS k (listing_EOF_as_nil fsys) dir n = ReadFS k fsys dir n"
    by (rule ReadFS_listing_EOF)
  show "filesnap_ReadFS k (listing_EOF_as_nil fsys) dir n = filesnap_ReadFS k fsys dir n"
    unfolding filesnap_ReadFS_def by (rule readFS_listing_EOF)
  show "ReadFS k fsys dir n \<noteq> Some (r, Some EOF)" for r
    using ReadFS_never_EOF [of k fsys dir n r "Some EOF"] by blast
  show "filesnap_ReadFS k fsys dir n \<noteq> Some (g, Some EOF)" for g
    unfolding filesnap_ReadFS_def
    using readFS_never_EOF [of k fsys dir "[]" n "[]" g "Some EOF"] by blast
qed

lemma path_Join_examples_eof:
  "path_Join ''/r/d'' ''b'' = ''/r/d/b''"
  "path_Join ''d'' ''b'' = ''d/b''"
  "path_Join ''/r'' ''d'' = ''/r/d''"
  "path_Join ''/r/d'' ''y'' = ''/r/d/y''"
  "path_Join ''/r/d'' ''z'' = ''/r/d/z''"
  "path_Join ''d'' ''y'' = ''d/y''"
  "path_Join ''d'' ''z'' = ''d/z''"
  by (simp_all add: path_Join_def path_Clean_def clean_elems_def clean_step_def)

theorem listing_EOF_scan_goes_on_witness:
  "fs_ReadDir fsys_eof ''/r'' =
     ([\<lparr>Name = ''a'', IsDir = False\<rparr>, \<lparr>Name = ''d'', IsDir = True\<rparr>], Some EOF)
   \<and> fs_ReadDir fsys_eof ''/r/d'' = ([\<lparr>Name = ''b'', IsDir = False\<rparr>], Some EOF)
   \<and> ReadFS 2 fsys_eof ''/r'' (- 1) =
       Some (Dirs [(''a'', DNil), (''d'', Dirs [(''b'', DNil)])], None)
   \<and> filesnap_ReadFS 2 fsys_eof ''/r'' (- 1) =
       Some ([(''a'', Some ''hi''), (''d/b'', Some ''yo'')], None)"
proof -
  let ?a = "\<lparr>Name = ''a'', IsDir = False\<rparr>"
  let ?d = "\<lparr>Name = ''d'', IsDir = True\<rparr>"
  let ?b = "\<lparr>Name = ''b'', IsDir = False\<rparr>"
  note J = path_Join_examples path_Join_examples_eof
  have lr: "fs_ReadDir fsys_eof ''/r'' = ([?a, ?d], Some EOF)"
    by (simp add: fsys_eof_def)
  have ld: "fs_ReadDir fsys_eof ''/r/d'' = ([?b], Some EOF)"
    by (simp add: fsys_eof_def)
  have ra: "fs_ReadFile fsys_eof ''/r/a'' = (Some ''hi'', None)"
    by (simp add: fsys_eof_def)
  have rb: "fs_ReadFile fsys_eof ''/r/d/b'' = (Some ''yo'', None)"
    by (simp add: fsys_eof_def)
  \<comment> \<open>the nested directory, by the theorem at that level\<close>
  have nd: "ReadFS (Suc 0) fsys_eof ''/r/d'' (- 2) = Some (Dirs [(''b'', DNil)], None)"
    using listing_EOF_scan_goes_on [where fsys = fsys_eof and n = "- 2" and dir = "''/r/d''"
        and entries = "[?b]" and k = 0 and sub = "\<lambda>e. DNil", THEN conjunct1]
    by (simp add: ld dirs_record_def del: ReadFS.simps readFS.simps)
  have nf: "readFS (Suc 0) fsys_eof ''/r'' ''d'' (- 2) g =
              Some (AList.update ''d/b'' (Some ''yo'') g, None)" for g
    using listing_EOF_scan_goes_on [where fsys = fsys_eof and n = "- 2" and rootDir = "''/r''"
        and subDir = "''d''" and entries = "[?b]" and k = 0 and fsub = "\<lambda>e g. g" and f = g,
        THEN conjunct2, THEN conjunct1]
    by (simp add: J ld rb files_record_def del: ReadFS.simps readFS.simps)
  \<comment> \<open>the root\<close>
  have c1: "ReadFS (Suc (Suc 0)) fsys_eof ''/r'' (- 1) =
              Some (Dirs [(''a'', DNil), (''d'', Dirs [(''b'', DNil)])], None)"
    using listing_EOF_scan_goes_on [where fsys = fsys_eof and n = "- 1" and dir = "''/r''"
        and entries = "[?a, ?d]" and k = "Suc 0" and sub = "\<lambda>e. Dirs [(''b'', DNil)]",
        THEN conjunct1]
    by (simp add: lr J nd dirs_record_def del: ReadFS.simps readFS.simps)
  have c2: "readFS (Suc (Suc 0)) fsys_eof ''/r'' [] (- 1) [] =
              Some ([(''a'', Some ''hi''), (''d/b'', Some ''yo'')], None)"
    using listing_EOF_scan_goes_on [where fsys = fsys_eof and n = "- 1" and rootDir = "''/r''"
        and subDir = "[]" and entries = "[?a, ?d]" and k = "Suc 0"
        and fsub = "\<lambda>e g. AList.update ''d/b'' (Some ''yo'') g" and f = "[]",
        THEN conjunct2, THEN conjunct1]
    by (simp add: lr J ra nf files_record_def del: ReadFS.simps readFS.simps)
  have c3: "filesnap_ReadFS (Suc (Suc 0)) fsys_eof ''/r'' (- 1) =
              readFS (Suc (Suc 0)) fsys_eof ''/r'' [] (- 1) []"
    by (simp add: filesnap_ReadFS_def)
  have two: "(2::nat) = Suc (Suc 0)" by simp
  from lr ld c1 c2 c3 show ?thesis by (simp only: two)
qed

text \<open>
  Claim C4. A scan stops at the first error that is not \<open>io.EOF\<close> and returns
  it together with what it has recorded so far, the failing entry included.
  Below the listing is \<open>pre @ d # post\<close>, the entries \<open>pre\<close> are scanned without
  error, and \<open>d\<close> is the entry that fails; \<open>post\<close> is not scanned.
  \<^item> \<open>dirsnap.ReadFS\<close>: when the listing of \<open>dir\<close> fails, the result is the nil
    map and the error. When the scan of the directory \<open>d\<close> returns \<open>subd\<close> with
    an error, the result is the map of \<open>pre\<close> with \<open>subd\<close> recorded for \<open>d\<close>,
    and the error.
  \<^item> \<open>Files.readFS\<close>, for every sub-directory and every receiver \<open>f\<close>: when the
    listing fails, the result is \<open>f\<close> unchanged and the error. When reading the
    file \<open>d\<close> fails, the result is \<open>f\<close> with the files of \<open>pre\<close> recorded and
    with the data returned beside the error recorded for \<open>d\<close>, and the error.
    When \<open>d\<close> is a directory whose scan, started on \<open>f\<close> with the files of
    \<open>pre\<close> recorded, returns \<open>f'\<close> with an error, the result is \<open>f'\<close> and the
    error. \<open>filesnap.ReadFS\<close> is this scan from the root with an empty receiver.
\<close>

theorem scan_error_partial_snapshot:
  "(fs_ReadDir fsys dir = (es, Some e) \<and> e \<noteq> EOF
      \<longrightarrow> ReadFS (Suc k) fsys dir n = Some (DNil, Some e))
   \<and> (fs_ReadDir fsys dir = (pre @ d # post, err0) \<and> (err0 = None \<or> err0 = Some EOF)
        \<and> (\<forall>x\<in>set pre. IsDir x \<and> n \<noteq> 0 \<longrightarrow>
              ReadFS k fsys (path_Join dir (Name x)) (n - 1) = Some (sub x, None))
        \<and> IsDir d \<and> n \<noteq> 0
        \<and> ReadFS k fsys (path_Join dir (Name d)) (n - 1) = Some (subd, Some e)
      \<longrightarrow> ReadFS (Suc k) fsys dir n =
            Some (Dirs (AList.update (Name d) subd (fold (dirs_record n sub) pre [])), Some e))
   \<and> (fs_ReadDir fsys (path_Join rootDir subDir) = (es, Some e) \<and> e \<noteq> EOF
      \<longrightarrow> readFS (Suc k) fsys rootDir subDir n f = Some (f, Some e))
   \<and> (fs_ReadDir fsys (path_Join rootDir subDir) = (pre @ d # post, err0)
        \<and> (err0 = None \<or> err0 = Some EOF)
        \<and> (\<forall>x\<in>set pre. \<not> IsDir x \<longrightarrow>
              (let rerr = snd (fs_ReadFile fsys (path_Join (path_Join rootDir subDir) (Name x)))
               in rerr = None \<or> rerr = Some EOF))
        \<and> (\<forall>x\<in>set pre. \<forall>g. IsDir x \<and> n \<noteq> 0 \<longrightarrow>
              readFS k fsys rootDir (path_Join subDir (Name x)) (n - 1) g = Some (fsub x g, None))
        \<and> \<not> IsDir d
        \<and> fs_ReadFile fsys (path_Join (path_Join rootDir subDir) (Name d)) = (data, Some e)
        \<and> e \<noteq> EOF
      \<longrightarrow> readFS (Suc k) fsys rootDir subDir n f =
            Some (AList.update (path_Join subDir (Name d)) data
                    (fold (files_record fsys rootDir subDir n fsub) pre f), Some e))
   \<and> (fs_ReadDir fsys (path_Join rootDir subDir) = (pre @ d # post, err0)
        \<and> (err0 = None \<or> err0 = Some EOF)
        \<and> (\<forall>x\<in>set pre. \<not> IsDir x \<longrightarrow>
              (let rerr = snd (fs_ReadFile fsys (path_Join (path_Join rootDir subDir) (Name x)))
               in rerr = None \<or> rerr = Some EOF))
        \<and> (\<forall>x\<in>set pre. \<forall>g. IsDir x \<and> n \<noteq> 0 \<longrightarrow>
              readFS k fsys rootDir (path_Join subDir (Name x)) (n - 1) g = Some (fsub x g, None))
        \<and> IsDir d \<and> n \<noteq> 0
        \<and> readFS k fsys rootDir (path_Join subDir (Name d)) (n - 1)
              (fold (files_record fsys rootDir subDir n fsub) pre f) = Some (f', Some e)
      \<longrightarrow> readFS (Suc k) fsys rootDir subDir n f = Some (f', Some e))
   \<and> filesnap_ReadFS k fsys dir n = readFS k fsys dir [] n []"
proof (intro conjI impI)
  show "ReadFS (Suc k) fsys dir n = Some (DNil, Some e)"
    if "fs_ReadDir fsys dir = (es, Some e) \<and> e \<noteq> EOF"
    using that by simp
  show "ReadFS (Suc k) fsys dir n =
          Some (Dirs (AList.update (Name d) subd (fold (dirs_record n sub) pre [])), Some e)"
    if h: "fs_ReadDir fsys dir = (pre @ d # post, err0) \<and> (err0 = None \<or> err0 = Some EOF)
        \<and> (\<forall>x\<in>set pre. IsDir x \<and> n \<noteq> 0 \<longrightarrow>
              ReadFS k fsys (path_Join dir (Name x)) (n - 1) = Some (sub x, None))
        \<and> IsDir d \<and> n \<noteq> 0
        \<and> ReadFS k fsys (path_Join dir (Name d)) (n - 1) = Some (subd, Some e)"
  proof -
    from h have nested: "\<forall>x\<in>set pre. IsDir x \<and> n \<noteq> 0 \<longrightarrow>
              ReadFS k fsys (path_Join dir (Name x)) (n - 1) = Some (sub x, None)"
      by simp
    have l: "ReadFS_loop k fsys dir n pre [] = Some (Dirs (fold (dirs_record n sub) pre []), None)"
      using nested by (rule ReadFS_loop_ok)
    have "ReadFS (Suc k) fsys dir n = ReadFS_loop k fsys dir n (pre @ d # post) []"
      using h by auto
    also have "\<dots> = ReadFS_loop k fsys dir n (d # post) (fold (dirs_record n sub) pre [])"
      by (rule ReadFS_loop_append [OF l])
    also have "\<dots> = Some (Dirs (AList.update (Name d) subd (fold (dirs_record n sub) pre [])), Some e)"
      using h by (simp add: Let_def)
    finally show ?thesis .
  qed
  show "readFS (Suc k) fsys rootDir subDir n f = Some (f, Some e)"
    if "fs_ReadDir fsys (path_Join rootDir subDir) = (es, Some e) \<and> e \<noteq> EOF"
    using that by (simp add: Let_def)
  show "readFS (Suc k) fsys rootDir subDir n f =
            Some (AList.update (path_Join subDir (Name d)) data
                    (fold (files_record fsys rootDir subDir n fsub) pre f), Some e)"
    if h: "fs_ReadDir fsys (path_Join rootDir subDir) = (pre @ d # post, err0)
        \<and> (err0 = None \<or> err0 = Some EOF)
        \<and> (\<forall>x\<in>set pre. \<not> IsDir x \<longrightarrow>
              (let rerr = snd (fs_ReadFile fsys (path_Join (path_Join rootDir subDir) (Name x)))
               in rerr = None \<or> rerr = Some EOF))
        \<and> (\<forall>x\<in>set pre. \<forall>g. IsDir x \<and> n \<noteq> 0 \<longrightarrow>
              readFS k fsys rootDir (path_Join subDir (Name x)) (n - 1) g = Some (fsub x g, None))
        \<and> \<not> IsDir d
        \<and> fs_ReadFile fsys (path_Join (path_Join rootDir subDir) (Name d)) = (data, Some e)
        \<and> e \<noteq> EOF"
  proof -
    let ?g = "fold (files_record fsys rootDir subDir n fsub) pre f"
    from h have ok: "\<forall>x\<in>set pre. \<not> IsDir x \<longrightarrow> file_read_ok fsys rootDir subDir x"
      and nested: "\<forall>x\<in>set pre. \<forall>g. IsDir x \<and> n \<noteq> 0 \<longrightarrow>
              readFS k fsys rootDir (path_Join subDir (Name x)) (n - 1) g = Some (fsub x g, None)"
      by (simp_all add: file_read_ok_iff)
    have l: "readFS_loop k fsys rootDir subDir n pre f = Some (?g, None)"
      using ok nested by (rule readFS_loop_ok)
    have "readFS (Suc k) fsys rootDir subDir n f =
            readFS_loop k fsys rootDir subDir n (pre @ d # post) f"
      using h by (auto simp: Let_def)
    also have "\<dots> = readFS_loop k fsys rootDir subDir n (d # post) ?g"
      by (rule readFS_loop_append [OF l])
    also have "\<dots> = Some (AList.update (path_Join subDir (Name d)) data ?g, Some e)"
      using h by (simp add: Let_def)
    finally show ?thesis .
  qed
  show "readFS (Suc k) fsys rootDir subDir n f = Some (f', Some e)"
    if h: "fs_ReadDir fsys (path_Join rootDir subDir) = (pre @ d # post, err0)
        \<and> (err0 = None \<or> err0 = Some EOF)
        \<and> (\<forall>x\<in>set pre. \<not> IsDir x \<longrightarrow>
              (let rerr = snd (fs_ReadFile fsys (path_Join (path_Join rootDir subDir) (Name x)))
               in rerr = None \<or> rerr = Some EOF))
        \<and> (\<forall>x\<in>set pre. \<forall>g. IsDir x \<and> n \<noteq> 0 \<longrightarrow>
              readFS k fsys rootDir (path_Join subDir (Name x)) (n - 1) g = Some (fsub x g, None))
        \<and> IsDir d \<and> n \<noteq> 0
        \<and> readFS k fsys rootDir (path_Join subDir (Name d)) (n - 1)
              (fold (files_record fsys rootDir subDir n fsub) pre f) = Some (f', Some e)"
  proof -
    let ?g = "fold (files_record fsys rootDir subDir n fsub) pre f"
    from h have ok: "\<forall>x\<in>set pre. \<not> IsDir x \<longrightarrow> file_read_ok fsys rootDir subDir x"
      and nested: "\<forall>x\<in>set pre. \<forall>g. IsDir x \<and> n \<noteq> 0 \<longrightarrow>
              readFS k fsys rootDir (path_Join subDir (Name x)) (n - 1) g = Some (fsub x g, None)"
      by (simp_all add: file_read_ok_iff)
    have l: "readFS_loop k fsys rootDir subDir n pre f = Some (?g, None)"
      using ok nested by (rule readFS_loop_ok)
    have "readFS (Suc k) fsys rootDir subDir n f =
            readFS_loop k fsys rootDir subDir n (pre @ d # post) f"
      using h by (auto simp: Let_def)
    also have "\<dots> = readFS_loop k fsys rootDir subDir n (d # post) ?g"
      by (rule readFS_loop_append [OF l])
    also have "\<dots> = Some (f', Some e)"
      using h by (simp add: Let_def)
    finally show ?thesis .
  qed
  show "filesnap_ReadFS k fsys dir n = readFS k fsys dir [] n []"
    by (simp add: filesnap_ReadFS_def)
qed

theorem scan_error_partial_snapshot_witness:
  "ReadFS 1 fsys_broken ''/r/d'' (- 2) = Some (DNil, Some (ErrOther 13))
   \<and> ReadFS 2 fsys_broken ''/r'' (- 1) =
       Some (Dirs [(''a'', DNil), (''d'', DNil)], Some (ErrOther 13))
   \<and> readFS 1 fsys_broken ''/r'' ''d'' (- 2) [(''a'', Some ''hi'')] =
       Some ([(''a'', Some ''hi'')], Some (ErrOther 13))
   \<and> filesnap_ReadFS 2 fsys_broken ''/r'' (- 1) =
       Some ([(''a'', Some ''hi'')], Some (ErrOther 13))
   \<and> filesnap_ReadFS 1 fsys_broken ''/r'' 0 =
       Some ([(''a'', Some ''hi''), (''z'', None)], Some (ErrOther 5))
   \<and> readFS 1 fsys_unreadable ''/r'' ''d'' (- 2) [(''a'', Some ''hi'')] =
       Some ([(''a'', Some ''hi''), (''d/y'', Some ''yo''), (''d/z'', None)], Some (ErrOther 5))
   \<and> filesnap_ReadFS 2 fsys_unreadable ''/r'' (- 1) =
       Some ([(''a'', Some ''hi''), (''d/y'', Some ''yo''), (''d/z'', None)], Some (ErrOther 5))"
proof -
  let ?a = "\<lparr>Name = ''a'', IsDir = False\<rparr>"
  let ?d = "\<lparr>Name = ''d'', IsDir = True\<rparr>"
  let ?y = "\<lparr>Name = ''y'', IsDir = False\<rparr>"
  let ?z = "\<lparr>Name = ''z'', IsDir = False\<rparr>"
  let ?fa = "[(''a'', Some ''hi'')]"
  note J = path_Join_examples path_Join_examples_eof
  have br: "fs_ReadDir fsys_broken ''/r'' = ([?a] @ ?d # [?z], None)"
    and br0: "fs_ReadDir fsys_broken ''/r'' = ([?a, ?d] @ ?z # [], None)"
    and bd: "fs_ReadDir fsys_broken ''/r/d'' = ([], Some (ErrOther 13))"
    and ba: "fs_ReadFile fsys_broken ''/r/a'' = (Some ''hi'', None)"
    and bz: "fs_ReadFile fsys_broken ''/r/z'' = (None, Some (ErrOther 5))"
    by (simp_all add: fsys_broken_def)
  have ur: "fs_ReadDir fsys_unreadable ''/r'' = ([?a] @ ?d # [], None)"
    and ud: "fs_ReadDir fsys_unreadable ''/r/d'' = ([?y] @ ?z # [], None)"
    and ua: "fs_ReadFile fsys_unreadable ''/r/a'' = (Some ''hi'', None)"
    and uy: "fs_ReadFile fsys_unreadable ''/r/d/y'' = (Some ''yo'', None)"
    and uz: "fs_ReadFile fsys_unreadable ''/r/d/z'' = (None, Some (ErrOther 5))"
    by (simp_all add: fsys_unreadable_def)
  \<comment> \<open>\<open>dirsnap\<close>: the listing of \<open>/r/d\<close> fails\<close>
  have c1: "ReadFS (Suc 0) fsys_broken ''/r/d'' (- 2) = Some (DNil, Some (ErrOther 13))"
    using scan_error_partial_snapshot [where fsys = fsys_broken and dir = "''/r/d''"
        and es = "[]" and e = "ErrOther 13" and k = 0 and n = "- 2", THEN conjunct1]
    by (simp add: bd del: ReadFS.simps readFS.simps)
  have c2: "ReadFS (Suc (Suc 0)) fsys_broken ''/r'' (- 1) =
              Some (Dirs [(''a'', DNil), (''d'', DNil)], Some (ErrOther 13))"
    using scan_error_partial_snapshot [where fsys = fsys_broken and dir = "''/r''"
        and pre = "[?a]" and d = ?d and post = "[?z]" and ?err0.0 = None and sub = "\<lambda>x. DNil"
        and subd = DNil and e = "ErrOther 13" and k = "Suc 0" and n = "- 1",
        THEN conjunct2, THEN conjunct1]
    by (simp add: br J c1 dirs_record_def del: ReadFS.simps readFS.simps)
  \<comment> \<open>\<open>filesnap\<close>: the listing of \<open>/r/d\<close> fails\<close>
  have c3: "readFS (Suc 0) fsys_broken ''/r'' ''d'' (- 2) ?fa = Some (?fa, Some (ErrOther 13))"
    using scan_error_partial_snapshot [where fsys = fsys_broken and rootDir = "''/r''"
        and subDir = "''d''" and es = "[]" and e = "ErrOther 13" and k = 0 and n = "- 2"
        and f = ?fa, THEN conjunct2, THEN conjunct2, THEN conjunct1]
    by (simp add: bd J del: ReadFS.simps readFS.simps)
  have c4: "readFS (Suc (Suc 0)) fsys_broken ''/r'' [] (- 1) [] = Some (?fa, Some (ErrOther 13))"
    using scan_error_partial_snapshot [where fsys = fsys_broken and rootDir = "''/r''"
        and subDir = "[]" and pre = "[?a]" and d = ?d and post = "[?z]" and ?err0.0 = None
        and fsub = "\<lambda>x g. g" and f' = ?fa and e = "ErrOther 13" and k = "Suc 0" and n = "- 1"
        and f = "[]", THEN conjunct2, THEN conjunct2, THEN conjunct2, THEN conjunct2, THEN conjunct1]
    by (simp add: br J ba c3 files_record_def del: ReadFS.simps readFS.simps)
  \<comment> \<open>\<open>filesnap\<close>: \<open>/r/z\<close> cannot be read, depth 0\<close>
  have c5: "readFS (Suc 0) fsys_broken ''/r'' [] 0 [] =
              Some ([(''a'', Some ''hi''), (''z'', None)], Some (ErrOther 5))"
    using scan_error_partial_snapshot [where fsys = fsys_broken and rootDir = "''/r''"
        and subDir = "[]" and pre = "[?a, ?d]" and d = ?z and post = "[]" and ?err0.0 = None
        and fsub = "\<lambda>x g. g" and data = None and e = "ErrOther 5" and k = 0 and n = 0
        and f = "[]", THEN conjunct2, THEN conjunct2, THEN conjunct2, THEN conjunct1]
    by (simp add: br0 J ba bz files_record_def del: ReadFS.simps readFS.simps)
  \<comment> \<open>\<open>filesnap\<close>: \<open>/r/d/z\<close> cannot be read\<close>
  have c6: "readFS (Suc 0) fsys_unreadable ''/r'' ''d'' (- 2) ?fa =
              Some ([(''a'', Some ''hi''), (''d/y'', Some ''yo''), (''d/z'', None)],
                    Some (ErrOther 5))"
    using scan_error_partial_snapshot [where fsys = fsys_unreadable and rootDir = "''/r''"
        and subDir = "''d''" and pre = "[?y]" and d = ?z and post = "[]" and ?err0.0 = None
        and fsub = "\<lambda>x g. g" and data = None and e = "ErrOther 5" and k = 0 and n = "- 2"
        and f = ?fa, THEN conjunct2, THEN conjunct2, THEN conjunct2, THEN conjunct1]
    by (simp add: ud J uy uz files_record_def del: ReadFS.simps readFS.simps)
  have c7: "readFS (Suc (Suc 0)) fsys_unreadable ''/r'' [] (- 1) [] =
              Some ([(''a'', Some ''hi''), (''d/y'', Some ''yo''), (''d/z'', None)],
                    Some (ErrOther 5))"
    using scan_error_partial_snapshot [where fsys = fsys_unreadable and rootDir = "''/r''"
        and subDir = "[]" and pre = "[?a]" and d = ?d and post = "[]" and ?err0.0 = None
        and fsub = "\<lambda>x g. g"
        and f' = "[(''a'', Some ''hi''), (''d/y'', Some ''yo''), (''d/z'', None)]"
        and e = "ErrOther 5" and k = "Suc 0" and n = "- 1"
        and f = "[]", THEN conjunct2, THEN conjunct2, THEN conjunct2, THEN conjunct2, THEN conjunct1]
    by (simp add: ur J ua c6 files_record_def del: ReadFS.simps readFS.simps)
  have one: "(1::nat) = Suc 0" and two: "(2::nat) = Suc (Suc 0)" by simp_all
  from c1 c2 c3 c4 c5 c6 c7 show ?thesis
    by (simp only: one two filesnap_ReadFS_def)
qed

text \<open>
  The snapshot returned beside an error holds more than what was recorded
  before the failing entry. In \<open>fsys_broken\<close> the entry before the failing
  directory \<open>d\<close> gives the map with the key \<open>a\<close> alone, and \<open>dirsnap.ReadFS\<close>
  returns a map that also holds \<open>d\<close>. In \<open>fsys_unreadable\<close> the entries before
  the unreadable file \<open>d/z\<close> give the keys \<open>a\<close> and \<open>d/y\<close>, and
  \<open>filesnap.ReadFS\<close> returns a map that also holds \<open>d/z\<close>.
\<close>

theorem scan_error_result_holds_failing_entry:
  "ReadFS 2 fsys_broken ''/r'' (- 1) =
     Some (Dirs [(''a'', DNil), (''d'', DNil)], Some (ErrOther 13))
   \<and> ReadFS_loop 1 fsys_broken ''/r'' (- 1) [\<lparr>Name = ''a'', IsDir = False\<rparr>] [] =
       Some (Dirs [(''a'', DNil)], None)
   \<and> ReadFS 2 fsys_broken ''/r'' (- 1) \<noteq> Some (Dirs [(''a'', DNil)], Some (ErrOther 13))
   \<and> filesnap_ReadFS 2 fsys_unreadable ''/r'' (- 1) =
       Some ([(''a'', Some ''hi''), (''d/y'', Some ''yo''), (''d/z'', None)], Some (ErrOther 5))
   \<and> readFS_loop 0 fsys_unreadable ''/r'' ''d'' (- 2) [\<lparr>Name = ''y'', IsDir = False\<rparr>]
         [(''a'', Some ''hi'')] =
       Some ([(''a'', Some ''hi''), (''d/y'', Some ''yo'')], None)
   \<and> filesnap_ReadFS 2 fsys_unreadable ''/r'' (- 1) \<noteq>
       Some ([(''a'', Some ''hi''), (''d/y'', Some ''yo'')], Some (ErrOther 5))"
proof -
  note J = path_Join_examples path_Join_examples_eof
  have one: "(1::nat) = Suc 0" and two: "(2::nat) = Suc (Suc 0)" by simp_all
  have bd: "ReadFS (Suc 0) fsys_broken ''/r/d'' (- 2) = Some (DNil, Some (ErrOther 13))"
    by (simp add: fsys_broken_def)
  have b: "ReadFS (Suc (Suc 0)) fsys_broken ''/r'' (- 1) =
             Some (Dirs [(''a'', DNil), (''d'', DNil)], Some (ErrOther 13))"
    by (simp add: fsys_broken_def J Let_def)
  have bl: "ReadFS_loop (Suc 0) fsys_broken ''/r'' (- 1) [\<lparr>Name = ''a'', IsDir = False\<rparr>] [] =
              Some (Dirs [(''a'', DNil)], None)"
    by (simp add: Let_def)
  have u: "readFS (Suc (Suc 0)) fsys_unreadable ''/r'' [] (- 1) [] =
             Some ([(''a'', Some ''hi''), (''d/y'', Some ''yo''), (''d/z'', None)],
                   Some (ErrOther 5))"
    by (simp add: fsys_unreadable_def J Let_def)
  have ul: "readFS_loop 0 fsys_unreadable ''/r'' ''d'' (- 2) [\<lparr>Name = ''y'', IsDir = False\<rparr>]
              [(''a'', Some ''hi'')] =
            Some ([(''a'', Some ''hi''), (''d/y'', Some ''yo'')], None)"
    by (simp add: fsys_unreadable_def J Let_def)
  show ?thesis
    unfolding one two filesnap_ReadFS_def b bl u ul by simp
qed

section \<open>Write: a second Write changes nothing\<close>





lemma dirs_eq_DNil [simp]: "dirs_eq DNil S \<longleftrightarrow> S = DNil" "dirs_eq S DNil \<longleftrightarrow> S = DNil"
  by (cases S; simp)+













end
